theory Spec2Isabelle
  imports Complex_Main "HOL-Library.Multiset"
begin

section \<open>The vectormodel package: data model\<close>

text \<open>
  The package \<^verbatim>\<open>vectormodel\<close> (file \<^verbatim>\<open>vectormodel/vector_model.go\<close>) serves
  recommendations from item factors.  Its numbers are Go \<^verbatim>\<open>float64\<close>; they are taken
  here as exact reals, so rounding, infinities and NaN are outside the model.  A gonum
  \<^verbatim>\<open>mat.Dense\<close> is the list of its rows, a \<^verbatim>\<open>mat.VecDense\<close> the list of its
  entries.  A Go map that the code ranges over is an association list whose order is
  the order of the iteration (Go leaves it open; the theorems hold for every list, so
  for every order), and a key is present when it occurs as a first component.
\<close>

type_synonym vec = "real list"
type_synonym dense = "real list list"

datatype error =
    InvalidDimension      \<comment> \<open>\<^verbatim>\<open>errors.New("Invalid vector size")\<close>\<close>
  | InsufficientHistory   \<comment> \<open>\<^verbatim>\<open>fmt.Errorf("No seen doc is in model. ...")\<close>\<close>
  | SingularSystem        \<comment> \<open>\<^verbatim>\<open>errors.New("Failed to run Cholesky factorization")\<close>\<close>
  | SolveError            \<comment> \<open>a non-nil \<^verbatim>\<open>err\<close> of \<^verbatim>\<open>ch.SolveVec\<close>\<close>

text \<open>What a call does: it returns (an error or a value), or the Go runtime panics.\<close>

datatype 'a outcome = Returns "error + 'a" | Panics

record VectorModel =
  confidence :: real
  regularization :: real
  docIDs :: "int list"
  docIndexes :: "int \<rightharpoonup> nat"
  nFactors :: nat
  itemFactorsY :: dense
  squaredItemFactorsYtY :: dense

record DocumentScore =
  DocumentID :: int
  Score :: real

definition byDocScoreDesc_Less :: "DocumentScore \<Rightarrow> DocumentScore \<Rightarrow> bool" where
  "byDocScoreDesc_Less a b \<longleftrightarrow> Score a > Score b"

text \<open>
  The two facilities the package takes from outside: \<^verbatim>\<open>sort.Sort\<close> of the Go library,
  given the \<^verbatim>\<open>Less\<close> of the slice type, and gonum's \<^verbatim>\<open>mat.Cholesky\<close>, whose
  \<^verbatim>\<open>Factorize\<close> reports whether it could proceed and leaves a factorization \<open>'ch\<close>
  behind, and whose \<^verbatim>\<open>SolveVec\<close> returns the vector, or \<open>None\<close> for a non-nil error of its own.
  Neither is code of the package; the operations below take them as a parameter.
\<close>

record 'ch library =
  sort_Sort :: "(DocumentScore \<Rightarrow> DocumentScore \<Rightarrow> bool) \<Rightarrow> DocumentScore list \<Rightarrow> DocumentScore list"
  Factorize :: "dense \<Rightarrow> 'ch option"
  SolveVec :: "'ch \<Rightarrow> vec \<Rightarrow> vec option"

section \<open>Matrix operations of gonum, on rows\<close>

text \<open>
  The arithmetic operations are total on lists.  gonum panics where shapes do not fit;
  for a constructed model they fit, since every row of \<open>Y\<close> has \<open>nFactors\<close> entries.

  The constructor \<^verbatim>\<open>mat.NewDense\<close> is where gonum releases differ: the later ones
  panic with \<^verbatim>\<open>ErrZeroLength\<close> when a dimension is zero, the earlier ones return the
  empty matrix.  The package pins no release, so the release is a parameter of the
  construction.
\<close>

datatype gonum_release = Accepts_zero_length | Rejects_zero_length

definition dot :: "vec \<Rightarrow> vec \<Rightarrow> real" where
  "dot u v = sum_list (map2 (*) u v)"

text \<open>\<open>data\<close> in row-major order as \<open>r\<close> rows of \<open>c\<close> entries.\<close>

fun reshape :: "nat \<Rightarrow> nat \<Rightarrow> real list \<Rightarrow> dense" where
  "reshape 0 c data = []"
| "reshape (Suc r) c data = take c data # reshape r c (drop c data)"

text \<open>
  \<^verbatim>\<open>mat.NewDense(r, c, data)\<close>.  \<open>None\<close> is a panic: \<^verbatim>\<open>ErrZeroLength\<close> for a zero
  dimension where the release rejects it, \<^verbatim>\<open>ErrShape\<close> when \<open>data\<close> has not \<open>r * c\<close>
  entries.
\<close>

definition NewDense :: "gonum_release \<Rightarrow> nat \<Rightarrow> nat \<Rightarrow> real list \<Rightarrow> dense option" where
  "NewDense rel r c data =
     (if rel = Rejects_zero_length \<and> (r = 0 \<or> c = 0) then None
      else if r * c \<noteq> length data then None
      else Some (reshape r c data))"

definition T :: "dense \<Rightarrow> dense" where
  "T m = transpose m"

definition Mul :: "dense \<Rightarrow> dense \<Rightarrow> dense" where
  "Mul a b = map (\<lambda>r. map (\<lambda>c. dot r c) (transpose b)) a"

definition Add :: "dense \<Rightarrow> dense \<Rightarrow> dense" where
  "Add a b = map2 (map2 (+)) a b"

definition Scale :: "real \<Rightarrow> dense \<Rightarrow> dense" where
  "Scale f a = map (map ((*) f)) a"

definition RowView :: "dense \<Rightarrow> nat \<Rightarrow> vec" where
  "RowView m i = m ! i"

text \<open>A vector is a matrix of one column.\<close>

definition column :: "vec \<Rightarrow> dense" where
  "column v = map (\<lambda>a. [a]) v"

definition AddScaledVec :: "vec \<Rightarrow> real \<Rightarrow> vec \<Rightarrow> vec" where
  "AddScaledVec a alpha b = map2 (\<lambda>x y. x + alpha * y) a b"

definition MulVec :: "dense \<Rightarrow> vec \<Rightarrow> vec" where
  "MulVec a x = map (\<lambda>r. dot r x) a"

text \<open>
  \<^verbatim>\<open>eye\<close>: a zero matrix, then the loop that sets the diagonal.  It is called with
  \<open>nFactors\<close> of a constructed model, which is positive whenever the release rejects a
  zero dimension, so its own \<^verbatim>\<open>mat.NewDense\<close> does not panic.
\<close>

definition eye :: "nat \<Rightarrow> real \<Rightarrow> dense" where
  "eye n v = fold (\<lambda>i m. m[i := (m ! i)[i := v]]) [0..<n] (replicate n (replicate n 0))"

section \<open>Construction\<close>

text \<open>
  The loop of \<^verbatim>\<open>NewVectorModel\<close> over \<^verbatim>\<open>documents\<close>: \<open>i\<close> counts the entries done,
  \<open>data\<close> collects the vectors; a vector whose length is not that of the first one
  ends the construction with the error.
\<close>

fun load_documents ::
  "(int \<times> vec) list \<Rightarrow> nat \<Rightarrow> VectorModel \<Rightarrow> real list \<Rightarrow> error + (VectorModel \<times> real list)" where
  "load_documents [] i vm data = Inr (vm, data)"
| "load_documents ((doc, vector) # rest) i vm data =
     (if i = 0 then
        load_documents rest (i + 1)
          (vm\<lparr>nFactors := length vector,
              docIndexes := (docIndexes vm)(doc \<mapsto> i),
              docIDs := (docIDs vm)[i := doc]\<rparr>) (data @ vector)
      else if length vector \<noteq> nFactors vm then Inl InvalidDimension
      else
        load_documents rest (i + 1)
          (vm\<lparr>docIndexes := (docIndexes vm)(doc \<mapsto> i),
              docIDs := (docIDs vm)[i := doc]\<rparr>) (data @ vector))"

text \<open>
  \<^verbatim>\<open>NewVectorModel\<close> returns the error of the loop, or panics in \<^verbatim>\<open>mat.NewDense\<close>, or
  returns the model with \<open>Y\<close> and \<open>Y\<^sup>tY\<close>.
\<close>

definition NewVectorModel ::
  "gonum_release \<Rightarrow> (int \<times> vec) list \<Rightarrow> real \<Rightarrow> real \<Rightarrow> VectorModel outcome" where
  "NewVectorModel rel documents conf reg =
     (let vm0 = \<lparr>confidence = conf, regularization = reg,
                 docIDs = replicate (length documents) 0, docIndexes = Map.empty,
                 nFactors = 0, itemFactorsY = [], squaredItemFactorsYtY = []\<rparr>
      in case load_documents documents 0 vm0 [] of
           Inl e \<Rightarrow> Returns (Inl e)
         | Inr (vm, data) \<Rightarrow>
             (case NewDense rel (length documents) (nFactors vm) data of
                None \<Rightarrow> Panics
              | Some Y \<Rightarrow>
                  Returns (Inr (vm\<lparr>itemFactorsY := Y, squaredItemFactorsYtY := Mul (T Y) Y\<rparr>))))"

section \<open>The user vector\<close>

definition confidenceMap :: "VectorModel \<Rightarrow> (int \<times> bool) list \<Rightarrow> (int \<times> real) list" where
  "confidenceMap vm seenDocs =
     map (\<lambda>(doc, _). (doc, confidence vm))
       (filter (\<lambda>(doc, _). docIndexes vm doc \<noteq> None) seenDocs)"

text \<open>One round of the loop of \<^verbatim>\<open>userVector\<close> over the confidence map.\<close>

definition accumulate :: "VectorModel \<Rightarrow> int \<times> real \<Rightarrow> dense \<times> vec \<Rightarrow> dense \<times> vec" where
  "accumulate vm = (\<lambda>(doc, conf) (A, b).
     case docIndexes vm doc of
       None \<Rightarrow> (A, b)
     | Some index \<Rightarrow>
         (let factor = RowView (itemFactorsY vm) index;
              factor2 = Scale (conf - 1) (Mul (column factor) (T (column factor)))
          in (Add A factor2, AddScaledVec b conf factor)))"

definition normal_equations :: "VectorModel \<Rightarrow> (int \<times> real) list \<Rightarrow> dense \<times> vec" where
  "normal_equations vm cm =
     fold (accumulate vm) cm
       (Add (squaredItemFactorsYtY vm) (eye (nFactors vm) (regularization vm)),
        replicate (nFactors vm) 0)"

definition userVector :: "'ch library \<Rightarrow> VectorModel \<Rightarrow> (int \<times> real) list \<Rightarrow> error + vec" where
  "userVector lib vm cm =
     (case normal_equations vm cm of
        (A, b) \<Rightarrow>
          (case Factorize lib A of
             None \<Rightarrow> Inl SingularSystem
           | Some ch \<Rightarrow>
               (case SolveVec lib ch b of
                  None \<Rightarrow> Inl SolveError
                | Some x \<Rightarrow> Inr x)))"

definition scoresForUserVec :: "VectorModel \<Rightarrow> vec \<Rightarrow> vec" where
  "scoresForUserVec vm userVec = MulVec (itemFactorsY vm) userVec"

section \<open>Scoring, Rank and Recommend\<close>

definition candidateScore :: "VectorModel \<Rightarrow> (int \<times> bool) list \<Rightarrow> vec \<Rightarrow> int \<Rightarrow> real" where
  "candidateScore vm seenDocs scoresVec doc =
     (if doc \<in> fst ` set seenDocs then - 1
      else case docIndexes vm doc of
             None \<Rightarrow> 0
           | Some docIndex \<Rightarrow> scoresVec ! docIndex)"

definition scoreCandidates ::
  "'ch library \<Rightarrow> VectorModel \<Rightarrow> int list \<Rightarrow> (int \<times> bool) list \<Rightarrow> error + DocumentScore list" where
  "scoreCandidates lib vm candidates seenDocs =
     (let cm = confidenceMap vm seenDocs
      in if length cm = 0 then Inl InsufficientHistory
         else case userVector lib vm cm of
                Inl e \<Rightarrow> Inl e
              | Inr userVec \<Rightarrow>
                  (let scoresVec = scoresForUserVec vm userVec;
                       candidateScores =
                         map (\<lambda>doc. \<lparr>DocumentID = doc,
                                     Score = candidateScore vm seenDocs scoresVec doc\<rparr>)
                           candidates
                   in Inr (sort_Sort lib byDocScoreDesc_Less candidateScores)))"

text \<open>
  \<^verbatim>\<open>Rank\<close> writes the sorted identifiers back through the caller's pointer and fills
  the scores, index by index.  The result is the returned value, the caller's list
  after the call, and the model after the call.
\<close>

definition Rank ::
  "'ch library \<Rightarrow> VectorModel \<Rightarrow> int list \<Rightarrow> (int \<times> bool) list
     \<Rightarrow> (error + real list) \<times> int list \<times> VectorModel" where
  "Rank lib vm candidates seenDocs =
     (case scoreCandidates lib vm candidates seenDocs of
        Inl e \<Rightarrow> (Inl e, candidates, vm)
      | Inr candidateScores \<Rightarrow>
          (case fold (\<lambda>i (cands, scores).
                        (cands[i := DocumentID (candidateScores ! i)],
                         scores[i := Score (candidateScores ! i)]))
                  [0..<length candidateScores]
                  (candidates, replicate (length candidateScores) 0) of
             (cands, scores) \<Rightarrow> (Inr scores, cands, vm)))"

text \<open>
  \<^verbatim>\<open>Recommend\<close> scores the model's own identifiers.  The slice expression
  \<^verbatim>\<open>recommendations[:n]\<close> is reached when \<^verbatim>\<open>len(recommendations) > n\<close>; Go
  panics there when \<open>n\<close> is negative.
\<close>

definition Recommend ::
  "'ch library \<Rightarrow> VectorModel \<Rightarrow> (int \<times> bool) list \<Rightarrow> int
     \<Rightarrow> DocumentScore list outcome \<times> VectorModel" where
  "Recommend lib vm seenDocs n =
     (case scoreCandidates lib vm (docIDs vm) seenDocs of
        Inl e \<Rightarrow> (Returns (Inl e), vm)
      | Inr recommendations \<Rightarrow>
          (if int (length recommendations) > n then
             (if n < 0 then (Panics, vm)
              else (Returns (Inr (take (nat n) recommendations)), vm))
           else (Returns (Inr recommendations), vm)))"

section \<open>What the outside facilities are required to do\<close>

text \<open>
  \<^verbatim>\<open>sort.Sort\<close> permutes the slice so that no later element is \<^verbatim>\<open>Less\<close> than an
  earlier one; it is not stable, and nothing more is required of it here.
\<close>

definition sort_contract :: "'ch library \<Rightarrow> bool" where
  "sort_contract lib \<longleftrightarrow>
     (\<forall>xs. mset (sort_Sort lib byDocScoreDesc_Less xs) = mset xs \<and>
           sorted_wrt (\<lambda>a b. \<not> byDocScoreDesc_Less b a) (sort_Sort lib byDocScoreDesc_Less xs))"

definition square :: "dense \<Rightarrow> bool" where
  "square A \<longleftrightarrow> (\<forall>r \<in> set A. length r = length A)"

definition symmetric :: "dense \<Rightarrow> bool" where
  "symmetric A \<longleftrightarrow> (\<forall>i < length A. \<forall>j < length A. A ! i ! j = A ! j ! i)"

text \<open>
  A Cholesky factorization that succeeded solves the system it was made from:
  \<^verbatim>\<open>SolveVec\<close> "finds the vector x that solves A * x = b".  \<^verbatim>\<open>Factorize\<close> reads one
  triangle of its argument only (the package wraps \<open>A\<close> as \<^verbatim>\<open>unsafeSymmetric\<close>), so
  this is required for symmetric matrices and for no others.
\<close>

definition cholesky_contract :: "'ch library \<Rightarrow> bool" where
  "cholesky_contract lib \<longleftrightarrow>
     (\<forall>A ch b x. square A \<and> symmetric A \<and> length b = length A \<and>
        Factorize lib A = Some ch \<and> SolveVec lib ch b = Some x
        \<longrightarrow> length x = length b \<and> MulVec A x = b)"

section \<open>An exact instance of the outside facilities\<close>

text \<open>Insertion sort: one admissible behaviour of \<^verbatim>\<open>sort.Sort\<close>.\<close>

fun insert_by :: "('a \<Rightarrow> 'a \<Rightarrow> bool) \<Rightarrow> 'a \<Rightarrow> 'a list \<Rightarrow> 'a list" where
  "insert_by lt x [] = [x]"
| "insert_by lt x (y # ys) =
     (if lt y x then y # insert_by lt x ys else x # y # ys)"

definition insertion_sort :: "('a \<Rightarrow> 'a \<Rightarrow> bool) \<Rightarrow> 'a list \<Rightarrow> 'a list" where
  "insertion_sort lt xs = foldr (insert_by lt) xs []"

text \<open>
  Symmetric elimination in exact arithmetic.  Its pivots are the squares of the
  diagonal of the Cholesky factor, so it stops exactly where the factorization cannot
  proceed (a pivot that is not positive), and otherwise yields the solution.
\<close>

function eliminate :: "dense \<Rightarrow> vec \<Rightarrow> vec option" where
  "eliminate [] b = Some []"
| "eliminate ([] # rows) b = None"
| "eliminate ((a # r) # rows) [] = None"
| "eliminate ((a # r) # rows) (b0 # bs) =
     (if a \<le> 0 then None
      else case eliminate
                  (map (\<lambda>row. map2 (\<lambda>x y. x - hd row / a * y) (tl row) r) rows)
                  (map2 (\<lambda>row bi. bi - hd row / a * b0) rows bs) of
             None \<Rightarrow> None
           | Some x \<Rightarrow> Some ((b0 - dot r x) / a # x))"
  by pat_completeness auto
termination
  by (relation "measure (\<lambda>(A, b). length A)") auto

text \<open>The matrix that the upper triangle of \<open>A\<close> stands for, as \<^verbatim>\<open>Factorize\<close> reads it.\<close>

definition from_upper :: "dense \<Rightarrow> dense" where
  "from_upper A =
     map (\<lambda>i. map (\<lambda>j. A ! min i j ! max i j) [0..<length A]) [0..<length A]"

definition exact_library :: "dense library" where
  "exact_library =
     \<lparr>sort_Sort = insertion_sort,
      Factorize = (\<lambda>A. case eliminate (from_upper A) (replicate (length A) 0) of
                         None \<Rightarrow> None | Some _ \<Rightarrow> Some (from_upper A)),
      SolveVec = eliminate\<rparr>"

section \<open>The linear system as the specification words it\<close>

text \<open>
  The retained consumed items: the entries of the confidence map whose item is in the
  index, each as its confidence and its factor row.
\<close>

definition retained :: "VectorModel \<Rightarrow> (int \<times> real) list \<Rightarrow> (real \<times> vec) list" where
  "retained vm cm =
     concat (map (\<lambda>(doc, c). case docIndexes vm doc of
                               None \<Rightarrow> []
                             | Some i \<Rightarrow> [(c, itemFactorsY vm ! i)]) cm)"

text \<open>
  \<open>A = Y\<^sup>tY + regularization \<cdot> I\<close> plus \<open>(c - 1) \<cdot> (f outer f)\<close> for each retained item,
  and \<open>b\<close> the sum of \<open>c \<cdot> f\<close>, entry by entry.
\<close>

definition system_matrix :: "VectorModel \<Rightarrow> (int \<times> real) list \<Rightarrow> dense" where
  "system_matrix vm cm =
     map (\<lambda>i. map (\<lambda>j.
            (\<Sum>k\<leftarrow>[0..<length (itemFactorsY vm)]. itemFactorsY vm ! k ! i * itemFactorsY vm ! k ! j)
            + (if i = j then regularization vm else 0)
            + (\<Sum>(c, f)\<leftarrow>retained vm cm. (c - 1) * (f ! i * f ! j)))
          [0..<nFactors vm]) [0..<nFactors vm]"

definition system_rhs :: "VectorModel \<Rightarrow> (int \<times> real) list \<Rightarrow> vec" where
  "system_rhs vm cm =
     map (\<lambda>i. \<Sum>(c, f)\<leftarrow>retained vm cm. c * f ! i) [0..<nFactors vm]"

text \<open>
  The same system for a request: the consumed-item set is \<open>seenDocs\<close>, the retained
  items are its keys that are in the index, each with its factor row, and every one of
  them carries the confidence of the model.
\<close>

definition consumed_rows :: "VectorModel \<Rightarrow> (int \<times> bool) list \<Rightarrow> vec list" where
  "consumed_rows vm seenDocs =
     concat (map (\<lambda>(doc, _). case docIndexes vm doc of
                               None \<Rightarrow> []
                             | Some i \<Rightarrow> [itemFactorsY vm ! i]) seenDocs)"

definition user_matrix :: "VectorModel \<Rightarrow> (int \<times> bool) list \<Rightarrow> dense" where
  "user_matrix vm seenDocs =
     map (\<lambda>i. map (\<lambda>j.
            (\<Sum>k\<leftarrow>[0..<length (itemFactorsY vm)]. itemFactorsY vm ! k ! i * itemFactorsY vm ! k ! j)
            + (if i = j then regularization vm else 0)
            + (\<Sum>f\<leftarrow>consumed_rows vm seenDocs. (confidence vm - 1) * (f ! i * f ! j)))
          [0..<nFactors vm]) [0..<nFactors vm]"

definition user_rhs :: "VectorModel \<Rightarrow> (int \<times> bool) list \<Rightarrow> vec" where
  "user_rhs vm seenDocs =
     map (\<lambda>i. \<Sum>f\<leftarrow>consumed_rows vm seenDocs. confidence vm * f ! i) [0..<nFactors vm]"

section \<open>Auxiliary notions for the proofs\<close>

text \<open>The length of the first vector, and the steps of the loop over the documents.\<close>

definition first_length :: "(int \<times> vec) list \<Rightarrow> nat" where
  "first_length documents = (case documents of [] \<Rightarrow> 0 | (_, v) # _ \<Rightarrow> length v)"

definition uniform :: "(int \<times> vec) list \<Rightarrow> bool" where
  "uniform documents \<longleftrightarrow> (\<forall>v \<in> snd ` set documents. length v = first_length documents)"

text \<open>Input that leads to a matrix with a zero dimension.\<close>

definition degenerate :: "(int \<times> vec) list \<Rightarrow> bool" where
  "degenerate documents \<longleftrightarrow> documents = [] \<or> first_length documents = 0"

definition put_index :: "nat \<times> int \<Rightarrow> (int \<rightharpoonup> nat) \<Rightarrow> (int \<rightharpoonup> nat)" where
  "put_index = (\<lambda>(j, d) m. m(d \<mapsto> j))"

definition put_id :: "nat \<times> int \<Rightarrow> int list \<Rightarrow> int list" where
  "put_id = (\<lambda>(j, d) l. l[j := d])"

text \<open>A square matrix and a vector given by their entries.\<close>

definition mat_of :: "nat \<Rightarrow> (nat \<Rightarrow> nat \<Rightarrow> real) \<Rightarrow> dense" where
  "mat_of n f = map (\<lambda>i. map (\<lambda>j. f i j) [0..<n]) [0..<n]"

definition vec_of :: "nat \<Rightarrow> (nat \<Rightarrow> real) \<Rightarrow> vec" where
  "vec_of n f = map f [0..<n]"

text \<open>
  The scoring rule in the specification's words: \<open>- 1\<close> for a seen item, \<open>0\<close> for an
  item that is not in the model, and otherwise the dot product of the item's factor
  vector with the user vector \<open>x\<close>.
\<close>

definition score_rule :: "(int \<times> vec) list \<Rightarrow> (int \<times> bool) list \<Rightarrow> vec \<Rightarrow> int \<Rightarrow> real" where
  "score_rule documents seenDocs x doc =
     (if doc \<in> fst ` set seenDocs then - 1
      else case map_of documents doc of
             None \<Rightarrow> 0
           | Some f \<Rightarrow> dot f x)"

definition descending :: "real list \<Rightarrow> bool" where
  "descending ss \<longleftrightarrow> sorted_wrt (\<lambda>a b. a \<ge> b) ss"

section \<open>Fixtures\<close>

text \<open>
  The two items of the package's test \<^verbatim>\<open>TestRecommend\<close>, with its confidence
  \<open>40\<close> and regularization \<open>0.01\<close>, a model of two items with one factor each, and a
  model whose system is singular.  None has a zero dimension, so they are the same with
  either gonum release.
\<close>

definition fixture_documents :: "(int \<times> vec) list" where
  "fixture_documents = [(1234, [1, 2, 3]), (4567, [3, 2, 1])]"

fun model_of :: "VectorModel outcome \<Rightarrow> VectorModel" where
  "model_of (Returns (Inr vm)) = vm"

definition fixture :: VectorModel where
  "fixture = model_of (NewVectorModel Rejects_zero_length fixture_documents 40 (1 / 100))"

definition small_documents :: "(int \<times> vec) list" where
  "small_documents = [(1, [1]), (2, [- 2])]"

definition small :: VectorModel where
  "small = model_of (NewVectorModel Rejects_zero_length small_documents 40 5)"

definition singular_documents :: "(int \<times> vec) list" where
  "singular_documents = [(1, [1])]"

definition singular :: VectorModel where
  "singular = model_of (NewVectorModel Rejects_zero_length singular_documents 1 (- 1))"

section \<open>Construction: what the loop leaves behind\<close>

lemma put_index_simp [simp]: "put_index (j, d) m = m(d \<mapsto> j)"
  by (simp add: put_index_def)

lemma put_id_simp [simp]: "put_id (j, d) l = l[j := d]"
  by (simp add: put_id_def)

lemma load_documents_later:
  "0 < i \<Longrightarrow> load_documents rest i vm data =
     (if \<forall>v \<in> snd ` set rest. length v = nFactors vm
      then Inr (vm\<lparr>docIndexes := fold put_index (enumerate i (map fst rest)) (docIndexes vm),
                  docIDs := fold put_id (enumerate i (map fst rest)) (docIDs vm)\<rparr>,
                data @ concat (map snd rest))
      else Inl InvalidDimension)"
proof (induction rest arbitrary: i vm data)
  case Nil
  then show ?case by simp
next
  case (Cons p rest)
  obtain doc vector where p: "p = (doc, vector)" by (cases p)
  show ?case
    using Cons.prems Cons.IH[of "Suc i"]
    by (simp add: p)
qed

lemma load_documents_first:
  "load_documents documents 0 vm data =
     (if uniform documents
      then Inr (vm\<lparr>nFactors := (if documents = [] then nFactors vm else first_length documents),
                  docIndexes := fold put_index (enumerate 0 (map fst documents)) (docIndexes vm),
                  docIDs := fold put_id (enumerate 0 (map fst documents)) (docIDs vm)\<rparr>,
                data @ concat (map snd documents))
      else Inl InvalidDimension)"
proof (cases documents)
  case Nil
  then show ?thesis by (simp add: uniform_def)
next
  case (Cons p rest)
  obtain doc vector where p: "p = (doc, vector)" by (cases p)
  show ?thesis
    unfolding Cons
    by (simp add: p load_documents_later uniform_def first_length_def)
qed

lemma fold_put_id:
  "i + length ds \<le> length l \<Longrightarrow>
   fold put_id (enumerate i ds) l = take i l @ ds @ drop (i + length ds) l"
proof (induction ds arbitrary: i l)
  case Nil
  then show ?case by simp
next
  case (Cons d ds)
  have "fold put_id (enumerate i (d # ds)) l = fold put_id (enumerate (Suc i) ds) (l[i := d])"
    by simp
  also have "\<dots> = take (Suc i) (l[i := d]) @ ds @ drop (Suc i + length ds) (l[i := d])"
    using Cons.prems by (intro Cons.IH) simp
  also have "\<dots> = take i l @ (d # ds) @ drop (i + length (d # ds)) l"
    using Cons.prems by (simp add: take_Suc_conv_app_nth)
  finally show ?case .
qed

lemma fold_put_index_notin:
  "d' \<notin> set ds \<Longrightarrow> fold put_index (enumerate i ds) m d' = m d'"
  by (induction ds arbitrary: i m) auto

lemma fold_put_index_nth:
  "distinct ds \<Longrightarrow> k < length ds \<Longrightarrow>
   fold put_index (enumerate i ds) m (ds ! k) = Some (i + k)"
proof (induction ds arbitrary: i k m)
  case Nil
  then show ?case by simp
next
  case (Cons d ds)
  show ?case
  proof (cases k)
    case 0
    then show ?thesis using Cons.prems by (simp add: fold_put_index_notin)
  next
    case (Suc k')
    then show ?thesis using Cons.prems Cons.IH[of k' "Suc i"] by simp
  qed
qed

lemma fold_put_index_range:
  "fold put_index (enumerate i ds) m d = Some k \<Longrightarrow> m d = Some k \<or> (i \<le> k \<and> k < i + length ds)"
proof (induction ds arbitrary: i m)
  case Nil
  then show ?case by simp
next
  case (Cons a ds)
  from Cons.prems have "fold put_index (enumerate (Suc i) ds) (m(a \<mapsto> i)) d = Some k"
    by simp
  from Cons.IH[OF this] show ?case
    by (auto split: if_splits)
qed

lemma fold_put_index_in:
  "d \<in> set ds \<Longrightarrow> \<exists>k. fold put_index (enumerate i ds) m d = Some k"
proof (induction ds arbitrary: i m)
  case Nil
  then show ?case by simp
next
  case (Cons a ds)
  show ?case
  proof (cases "d \<in> set ds")
    case True
    from Cons.IH[OF this, of "Suc i"] show ?thesis by simp
  next
    case False
    with Cons.prems have "d = a" by simp
    with False show ?thesis by (simp add: fold_put_index_notin)
  qed
qed

lemma reshape_concat:
  "\<forall>v \<in> set vs. length v = c \<Longrightarrow> reshape (length vs) c (concat vs) = vs"
  by (induction vs) auto

lemma length_concat_uniform:
  "\<forall>v \<in> set vs. length v = c \<Longrightarrow> length (concat vs) = length vs * c"
  by (induction vs) auto

lemma NewVectorModel_eq:
  "NewVectorModel rel documents conf reg =
     (if \<not> uniform documents then Returns (Inl InvalidDimension)
      else if rel = Rejects_zero_length \<and> degenerate documents then Panics
      else Returns (Inr \<lparr>confidence = conf, regularization = reg,
                docIDs = map fst documents,
                docIndexes = fold put_index (enumerate 0 (map fst documents)) Map.empty,
                nFactors = first_length documents,
                itemFactorsY = map snd documents,
                squaredItemFactorsYtY = Mul (T (map snd documents)) (map snd documents)\<rparr>))"
proof (cases "uniform documents")
  case False
  then show ?thesis by (simp add: NewVectorModel_def load_documents_first)
next
  case True
  have u: "\<forall>v \<in> set (map snd documents). length v = first_length documents"
    using True by (simp add: uniform_def)
  have d: "reshape (length documents) (first_length documents) (concat (map snd documents))
             = map snd documents"
    using reshape_concat[OF u] by simp
  have l: "length (concat (map snd documents)) = length documents * first_length documents"
    using length_concat_uniform[OF u] by simp
  have e: "first_length [] = 0" by (simp add: first_length_def)
  have nd: "NewDense rel (length documents) (first_length documents) (concat (map snd documents))
      = (if rel = Rejects_zero_length \<and> degenerate documents then None
         else Some (map snd documents))"
    by (simp add: NewDense_def d l degenerate_def)
  have ids: "fold put_id (enumerate 0 (map fst documents)) (replicate (length documents) 0)
               = map fst documents"
    using fold_put_id[of 0 "map fst documents" "replicate (length documents) 0"] by simp
  show ?thesis
  proof (cases "documents = []")
    case empty: True
    have "NewDense rel 0 0 [] = (if rel = Rejects_zero_length then None else Some [])"
      by (simp add: NewDense_def)
    then show ?thesis
      by (simp add: empty NewVectorModel_def degenerate_def uniform_def Mul_def T_def e)
  next
    case False
    then show ?thesis
      using True by (simp add: NewVectorModel_def load_documents_first nd ids)
  qed
qed

lemma uniform_iff:
  "uniform documents \<longleftrightarrow>
     (\<forall>u \<in> snd ` set documents. \<forall>v \<in> snd ` set documents. length u = length v)"
proof (cases documents)
  case Nil
  then show ?thesis by (simp add: uniform_def)
next
  case (Cons p rest)
  obtain d w where p: "p = (d, w)" by (cases p)
  have "(\<forall>v \<in> snd ` set documents. length v = length w)
      \<longleftrightarrow> (\<forall>u \<in> snd ` set documents. \<forall>v \<in> snd ` set documents. length u = length v)"
  proof
    assume "\<forall>v \<in> snd ` set documents. length v = length w"
    then show "\<forall>u \<in> snd ` set documents. \<forall>v \<in> snd ` set documents. length u = length v"
      by simp
  next
    assume a: "\<forall>u \<in> snd ` set documents. \<forall>v \<in> snd ` set documents. length u = length v"
    have "w \<in> snd ` set documents" by (simp add: Cons p)
    with a show "\<forall>v \<in> snd ` set documents. length v = length w" by blast
  qed
  then show ?thesis
    by (simp add: uniform_def first_length_def Cons p)
qed

lemma NewVectorModel_fields:
  assumes "NewVectorModel rel documents conf reg = Returns (Inr vm)"
  shows "itemFactorsY vm = map snd documents"
    and "docIDs vm = map fst documents"
    and "nFactors vm = first_length documents"
    and "confidence vm = conf" and "regularization vm = reg"
    and "squaredItemFactorsYtY vm = Mul (T (itemFactorsY vm)) (itemFactorsY vm)"
    and "docIndexes vm = fold put_index (enumerate 0 (map fst documents)) Map.empty"
    and "uniform documents"
  using assms by (auto simp: NewVectorModel_eq split: if_splits)

lemma NewVectorModel_Rejects_positive:
  assumes "NewVectorModel Rejects_zero_length documents conf reg = Returns (Inr vm)"
  shows "0 < nFactors vm" and "itemFactorsY vm \<noteq> []"
  using assms by (auto simp: NewVectorModel_eq degenerate_def split: if_splits)

lemma NewVectorModel_rows:
  assumes "NewVectorModel rel documents conf reg = Returns (Inr vm)"
  shows "\<forall>r \<in> set (itemFactorsY vm). length r = nFactors vm"
  using NewVectorModel_fields[OF assms] by (auto simp: uniform_def)

lemma NewVectorModel_index_range:
  assumes "NewVectorModel rel documents conf reg = Returns (Inr vm)" and "docIndexes vm d = Some i"
  shows "i < length (itemFactorsY vm)"
  using fold_put_index_range[of 0 "map fst documents" Map.empty d i] assms(2)
  by (simp add: NewVectorModel_fields[OF assms(1)])

lemma NewVectorModel_index_None:
  assumes "NewVectorModel rel documents conf reg = Returns (Inr vm)"
  shows "docIndexes vm d = None \<longleftrightarrow> d \<notin> fst ` set documents"
proof (cases "d \<in> set (map fst documents)")
  case True
  from fold_put_index_in[OF this, of 0 Map.empty] True show ?thesis
    by (auto simp: NewVectorModel_fields[OF assms])
next
  case False
  from fold_put_index_notin[OF this, of 0 Map.empty] False show ?thesis
    by (auto simp: NewVectorModel_fields[OF assms])
qed

lemma NewVectorModel_index_row:
  assumes "NewVectorModel rel documents conf reg = Returns (Inr vm)" and "distinct (map fst documents)"
  shows "docIndexes vm d = Some i \<longleftrightarrow> i < length documents \<and> fst (documents ! i) = d"
proof
  assume a: "docIndexes vm d = Some i"
  then have "d \<in> fst ` set documents"
    using NewVectorModel_index_None[OF assms(1), of d] by auto
  then have "d \<in> set (map fst documents)" by simp
  then obtain k where k: "k < length (map fst documents)" "map fst documents ! k = d"
    by (metis in_set_conv_nth)
  from fold_put_index_nth[OF assms(2) k(1), of 0 Map.empty] k(2) a
  have "i = k" by (simp add: NewVectorModel_fields[OF assms(1)])
  with k show "i < length documents \<and> fst (documents ! i) = d" by simp
next
  assume "i < length documents \<and> fst (documents ! i) = d"
  then show "docIndexes vm d = Some i"
    using fold_put_index_nth[OF assms(2), of i 0 Map.empty]
    by (auto simp: NewVectorModel_fields[OF assms(1)])
qed

lemma NewVectorModel_factor_row:
  assumes "NewVectorModel rel documents conf reg = Returns (Inr vm)" and "distinct (map fst documents)"
    and "docIndexes vm d = Some i"
  shows "map_of documents d = Some (itemFactorsY vm ! i)"
proof -
  from NewVectorModel_index_row[OF assms(1,2)] assms(3)
  have i: "i < length documents" "fst (documents ! i) = d" by auto
  then have "(d, snd (documents ! i)) \<in> set documents"
    by (metis nth_mem prod.collapse)
  then have "map_of documents d = Some (snd (documents ! i))"
    using assms(2) by simp
  then show ?thesis using i by (simp add: NewVectorModel_fields[OF assms(1)])
qed

section \<open>Matrices by their entries\<close>

lemma mat_of_cong: "(\<And>i j. i < n \<Longrightarrow> j < n \<Longrightarrow> f i j = g i j) \<Longrightarrow> mat_of n f = mat_of n g"
  by (simp add: mat_of_def)

lemma vec_of_cong: "(\<And>i. i < n \<Longrightarrow> f i = g i) \<Longrightarrow> vec_of n f = vec_of n g"
  by (simp add: vec_of_def)

lemma vec_of_nth: "length v = n \<Longrightarrow> vec_of n (\<lambda>i. v ! i) = v"
  by (auto simp: vec_of_def intro: nth_equalityI)

lemma Add_mat_of: "Add (mat_of n f) (mat_of n g) = mat_of n (\<lambda>i j. f i j + g i j)"
  by (simp add: Add_def mat_of_def map2_map_map)

lemma Scale_mat_of: "Scale c (mat_of n f) = mat_of n (\<lambda>i j. c * f i j)"
  by (simp add: Scale_def mat_of_def comp_def)

lemma AddScaledVec_vec_of:
  "AddScaledVec (vec_of n f) c (vec_of n g) = vec_of n (\<lambda>i. f i + c * g i)"
  by (simp add: AddScaledVec_def vec_of_def map2_map_map)

lemma transpose_row: "transpose [v] = map (\<lambda>a. [a]) v"
proof -
  have "transpose [v] = map (\<lambda>i. map (\<lambda>j. [v] ! j ! i) [0..<length [v]]) [0..<length v]"
    by (rule transpose_rectangle) auto
  also have "\<dots> = map (\<lambda>a. [a]) v"
    by (auto intro: nth_equalityI)
  finally show ?thesis .
qed

lemma transpose_column: "transpose (map (\<lambda>a. [a]) v) = (if v = [] then [] else [v])"
proof (cases "v = []")
  case True
  then show ?thesis by simp
next
  case False
  have "transpose (map (\<lambda>a. [a]) v)
      = map (\<lambda>i. map (\<lambda>j. map (\<lambda>a. [a]) v ! j ! i) [0..<length (map (\<lambda>a. [a]) v)]) [0..<1]"
    using False by (intro transpose_rectangle) auto
  also have "\<dots> = [v]"
    by (auto intro: nth_equalityI)
  finally show ?thesis using False by simp
qed

lemma outer_mat_of:
  "Mul (column v) (T (column v)) = mat_of (length v) (\<lambda>i j. v ! i * v ! j)"
proof (cases "v = []")
  case True
  then show ?thesis by (simp add: Mul_def column_def mat_of_def)
next
  case False
  have "Mul (column v) (T (column v)) = map (\<lambda>a. map (\<lambda>b. a * b) v) v"
    using False
    by (simp add: Mul_def T_def column_def transpose_column transpose_row dot_def comp_def)
  also have "\<dots> = mat_of (length v) (\<lambda>i j. v ! i * v ! j)"
    by (auto simp: mat_of_def intro!: nth_equalityI)
  finally show ?thesis .
qed

lemma eye_steps:
  "k \<le> n \<Longrightarrow>
   fold (\<lambda>i m. m[i := (m ! i)[i := v]]) [0..<k] (replicate n (replicate n 0))
     = mat_of n (\<lambda>i j. if i = j \<and> i < k then v else 0)"
proof (induction k)
  case 0
  then show ?case by (auto simp: mat_of_def intro!: nth_equalityI)
next
  case (Suc k)
  then have "fold (\<lambda>i m. m[i := (m ! i)[i := v]]) [0..<Suc k] (replicate n (replicate n 0))
      = (mat_of n (\<lambda>i j. if i = j \<and> i < k then v else 0))
          [k := (mat_of n (\<lambda>i j. if i = j \<and> i < k then v else 0) ! k)[k := v]]"
    by simp
  also have "\<dots> = mat_of n (\<lambda>i j. if i = j \<and> i < Suc k then v else 0)"
    using Suc.prems by (auto simp: mat_of_def nth_list_update intro!: nth_equalityI)
  finally show ?case .
qed

lemma eye_mat_of: "eye n v = mat_of n (\<lambda>i j. if i = j then v else 0)"
  unfolding eye_def by (simp add: eye_steps cong: mat_of_cong)

lemma Gram_mat_of:
  assumes "\<forall>r \<in> set Y. length r = n" and "Y = [] \<Longrightarrow> n = 0"
  shows "Mul (T Y) Y = mat_of n (\<lambda>i j. \<Sum>k\<leftarrow>[0..<length Y]. Y ! k ! i * Y ! k ! j)"
proof -
  have t: "transpose Y = map (\<lambda>i. map (\<lambda>k. Y ! k ! i) [0..<length Y]) [0..<n]"
    using assms by (intro transpose_rectangle) auto
  show ?thesis
    by (simp add: Mul_def T_def t mat_of_def dot_def map2_map_map comp_def)
qed

section \<open>The system that the loop of userVector assembles\<close>

lemma retained_Cons_None:
  "docIndexes vm doc = None \<Longrightarrow> retained vm ((doc, c) # cm) = retained vm cm"
  by (simp add: retained_def)

lemma retained_Cons_Some:
  "docIndexes vm doc = Some i \<Longrightarrow> retained vm ((doc, c) # cm) = (c, itemFactorsY vm ! i) # retained vm cm"
  by (simp add: retained_def)

lemma fold_accumulate:
  assumes rows: "\<forall>r \<in> set (itemFactorsY vm). length r = n"
    and range: "\<And>d i. docIndexes vm d = Some i \<Longrightarrow> i < length (itemFactorsY vm)"
  shows "fold (accumulate vm) cm (mat_of n a, vec_of n b)
     = (mat_of n (\<lambda>i j. a i j + (\<Sum>(c, f)\<leftarrow>retained vm cm. (c - 1) * (f ! i * f ! j))),
        vec_of n (\<lambda>i. b i + (\<Sum>(c, f)\<leftarrow>retained vm cm. c * f ! i)))"
proof (induction cm arbitrary: a b)
  case Nil
  then show ?case by (simp add: retained_def)
next
  case (Cons p cm)
  obtain doc c where p: "p = (doc, c)" by (cases p)
  show ?case
  proof (cases "docIndexes vm doc")
    case None
    then show ?thesis
      using Cons.IH[of a b] by (simp add: p accumulate_def retained_Cons_None)
  next
    case (Some idx)
    define f where "f = itemFactorsY vm ! idx"
    have len: "length f = n"
      using rows range[OF Some] by (simp add: f_def)
    have v: "AddScaledVec (vec_of n b) c f = vec_of n (\<lambda>i. b i + c * f ! i)"
      using AddScaledVec_vec_of[of n b c "\<lambda>i. f ! i"] by (simp only: vec_of_nth[OF len])
    have step: "accumulate vm (doc, c) (mat_of n a, vec_of n b)
        = (mat_of n (\<lambda>i j. a i j + (c - 1) * (f ! i * f ! j)), vec_of n (\<lambda>i. b i + c * f ! i))"
      using len
      by (simp add: accumulate_def Some RowView_def Let_def outer_mat_of Scale_mat_of Add_mat_of
          v flip: f_def)
    show ?thesis
      unfolding p fold_Cons comp_def step Cons.IH retained_Cons_Some[OF Some]
      by (simp add: f_def algebra_simps)
  qed
qed

lemma normal_equations_system:
  assumes "NewVectorModel rel documents conf reg = Returns (Inr vm)"
  shows "normal_equations vm cm = (system_matrix vm cm, system_rhs vm cm)"
proof -
  note f = NewVectorModel_fields[OF assms]
  have e: "itemFactorsY vm = [] \<Longrightarrow> nFactors vm = 0"
    by (simp add: f first_length_def)
  have g: "squaredItemFactorsYtY vm
      = mat_of (nFactors vm) (\<lambda>i j. \<Sum>k\<leftarrow>[0..<length (itemFactorsY vm)]. itemFactorsY vm ! k ! i * itemFactorsY vm ! k ! j)"
    unfolding f(6) using NewVectorModel_rows[OF assms] e by (rule Gram_mat_of)
  have z: "replicate (nFactors vm) (0::real) = vec_of (nFactors vm) (\<lambda>i. 0)"
    by (simp add: vec_of_def map_replicate_const)
  show ?thesis
    unfolding normal_equations_def g eye_mat_of Add_mat_of z
    by (subst fold_accumulate[OF NewVectorModel_rows[OF assms] NewVectorModel_index_range[OF assms]])
       (simp_all add: system_matrix_def system_rhs_def mat_of_def vec_of_def)
qed

lemma system_shape:
  "square (system_matrix vm cm)"
  "length (system_rhs vm cm) = length (system_matrix vm cm)"
  "length (system_rhs vm cm) = nFactors vm"
  by (auto simp: square_def system_matrix_def system_rhs_def)

lemma system_symmetric: "symmetric (system_matrix vm cm)"
  by (simp add: symmetric_def system_matrix_def mult.commute)

lemma retained_confidenceMap:
  "retained vm (confidenceMap vm seenDocs)
     = map (\<lambda>f. (confidence vm, f)) (consumed_rows vm seenDocs)"
  by (induction seenDocs)
     (auto simp: retained_def confidenceMap_def consumed_rows_def split: option.splits)

lemma confidenceMap_entries:
  "map fst (confidenceMap vm seenDocs)
     = filter (\<lambda>d. docIndexes vm d \<noteq> None) (map fst seenDocs)"
  "\<forall>c \<in> snd ` set (confidenceMap vm seenDocs). c = confidence vm"
proof -
  show "map fst (confidenceMap vm seenDocs)
     = filter (\<lambda>d. docIndexes vm d \<noteq> None) (map fst seenDocs)"
    by (induction seenDocs) (simp_all add: confidenceMap_def split_def)
  show "\<forall>c \<in> snd ` set (confidenceMap vm seenDocs). c = confidence vm"
    by (simp add: confidenceMap_def split_def)
qed

lemma system_of_request:
  "system_matrix vm (confidenceMap vm seenDocs) = user_matrix vm seenDocs"
  "system_rhs vm (confidenceMap vm seenDocs) = user_rhs vm seenDocs"
  by (simp_all add: system_matrix_def system_rhs_def user_matrix_def user_rhs_def
      retained_confidenceMap comp_def)

lemma userVector_system:
  assumes "NewVectorModel rel documents conf reg = Returns (Inr vm)"
  shows "userVector lib vm cm =
     (case Factorize lib (system_matrix vm cm) of
        None \<Rightarrow> Inl SingularSystem
      | Some ch \<Rightarrow>
          (case SolveVec lib ch (system_rhs vm cm) of
             None \<Rightarrow> Inl SolveError
           | Some x \<Rightarrow> Inr x))"
  by (simp add: userVector_def normal_equations_system[OF assms])


text \<open>
  Go ranges over the confidence map in an order of its own.  In exact arithmetic the
  order does not matter: two confidence maps with the same entries give the same system,
  hence the same call of the solver.
\<close>

lemma mset_retained:
  "mset (retained vm cm)
     = (\<Sum>p \<in># mset cm. mset (case p of (doc, c) \<Rightarrow>
          (case docIndexes vm doc of None \<Rightarrow> [] | Some i \<Rightarrow> [(c, itemFactorsY vm ! i)])))"
  by (induction cm) (simp_all add: retained_def)

lemma sum_list_retained:
  "mset cm = mset cm' \<Longrightarrow>
   (\<Sum>q\<leftarrow>retained vm cm. f q) = (\<Sum>q\<leftarrow>retained vm cm'. (f q :: real))"
proof -
  assume "mset cm = mset cm'"
  then have "mset (retained vm cm) = mset (retained vm cm')"
    by (simp only: mset_retained)
  then have "sum_mset (image_mset f (mset (retained vm cm)))
           = sum_mset (image_mset f (mset (retained vm cm')))"
    by simp
  then show ?thesis
    by (simp only: sum_mset_sum_list flip: mset_map)
qed

lemma normal_equations_order:
  assumes "NewVectorModel rel documents conf reg = Returns (Inr vm)" and "mset cm = mset cm'"
  shows "normal_equations vm cm = normal_equations vm cm'"
  unfolding normal_equations_system[OF assms(1)] system_matrix_def system_rhs_def
  by (simp add: sum_list_retained[OF assms(2)])

lemma userVector_order:
  assumes "NewVectorModel rel documents conf reg = Returns (Inr vm)" and "mset cm = mset cm'"
  shows "userVector lib vm cm = userVector lib vm cm'"
  by (simp add: userVector_def normal_equations_order[OF assms])

section \<open>Scoring: the branches of scoreCandidates, Rank and Recommend\<close>




lemma scoreCandidates_Inr:
  "scoreCandidates lib vm candidates seenDocs = Inr rs \<Longrightarrow>
   confidenceMap vm seenDocs \<noteq> [] \<and>
   (\<exists>x. userVector lib vm (confidenceMap vm seenDocs) = Inr x \<and>
        rs = sort_Sort lib byDocScoreDesc_Less
               (map (\<lambda>doc. \<lparr>DocumentID = doc,
                              Score = candidateScore vm seenDocs (scoresForUserVec vm x) doc\<rparr>)
                  candidates))"
  by (auto simp: scoreCandidates_def Let_def split: sum.splits if_splits)



lemma Recommend_Inr:
  "scoreCandidates lib vm (docIDs vm) seenDocs = Inr rs \<Longrightarrow>
   Recommend lib vm seenDocs n =
     (if n < 0 then (Panics, vm) else (Returns (Inr (take (nat n) rs)), vm))"
  by (auto simp: Recommend_def)



text \<open>The loop of \<^verbatim>\<open>Rank\<close> copies the identifiers and the scores, position by position.\<close>

lemma fold_pair:
  "fold (\<lambda>i (c, s). (c[i := f i], s[i := g i])) is (c, s)
     = (fold (\<lambda>i c. c[i := f i]) is c, fold (\<lambda>i s. s[i := g i]) is s)"
  by (induction "is" arbitrary: c s) auto

lemma fold_update_upt:
  "k \<le> length l \<Longrightarrow> fold (\<lambda>i l. l[i := f i]) [0..<k] l = map f [0..<k] @ drop k l"
proof (induction k)
  case 0
  then show ?case by simp
next
  case (Suc k)
  then have "fold (\<lambda>i l. l[i := f i]) [0..<Suc k] l = (map f [0..<k] @ drop k l)[k := f k]"
    by simp
  also have "\<dots> = map f [0..<k] @ (drop k l)[0 := f k]"
    by (simp add: list_update_append)
  also have "drop k l = l ! k # drop (Suc k) l"
    using Suc.prems by (simp add: Cons_nth_drop_Suc)
  finally show ?case by simp
qed

lemma map_nth_upt: "map (\<lambda>i. f (cs ! i)) [0..<length cs] = map f cs"
  by (rule nth_equalityI) simp_all

lemma Rank_Inr:
  assumes "scoreCandidates lib vm candidates seenDocs = Inr cs" and "length cs = length candidates"
  shows "Rank lib vm candidates seenDocs = (Inr (map Score cs), map DocumentID cs, vm)"
proof -
  have "fold (\<lambda>i c. c[i := DocumentID (cs ! i)]) [0..<length cs] candidates
      = map (\<lambda>i. DocumentID (cs ! i)) [0..<length cs] @ drop (length cs) candidates"
    by (rule fold_update_upt) (simp add: assms(2))
  also have "\<dots> = map DocumentID cs"
    by (simp add: map_nth_upt assms(2)[symmetric])
  finally have a: "fold (\<lambda>i c. c[i := DocumentID (cs ! i)]) [0..<length cs] candidates
      = map DocumentID cs" .
  have "fold (\<lambda>i s. s[i := Score (cs ! i)]) [0..<length cs] (replicate (length cs) 0)
      = map (\<lambda>i. Score (cs ! i)) [0..<length cs] @ drop (length cs) (replicate (length cs) 0)"
    by (rule fold_update_upt) simp
  also have "\<dots> = map Score cs"
    by (simp add: map_nth_upt)
  finally have b: "fold (\<lambda>i s. s[i := Score (cs ! i)]) [0..<length cs] (replicate (length cs) 0)
      = map Score cs" .
  show ?thesis
    by (simp add: Rank_def assms(1) fold_pair a b)
qed

lemma sort_contract_mset:
  "sort_contract lib \<Longrightarrow> mset (sort_Sort lib byDocScoreDesc_Less xs) = mset xs"
  by (simp add: sort_contract_def)

lemma sort_contract_length:
  "sort_contract lib \<Longrightarrow> length (sort_Sort lib byDocScoreDesc_Less xs) = length xs"
  using sort_contract_mset[of lib xs] by (metis size_mset)

lemma sort_contract_set:
  "sort_contract lib \<Longrightarrow> set (sort_Sort lib byDocScoreDesc_Less xs) = set xs"
  using sort_contract_mset[of lib xs] by (metis set_mset_mset)

lemma sort_contract_descending:
  "sort_contract lib \<Longrightarrow> descending (map Score (sort_Sort lib byDocScoreDesc_Less xs))"
proof -
  assume "sort_contract lib"
  then have "sorted_wrt (\<lambda>a b. \<not> byDocScoreDesc_Less b a) (sort_Sort lib byDocScoreDesc_Less xs)"
    by (simp add: sort_contract_def)
  then show ?thesis
    by (simp add: descending_def sorted_wrt_map byDocScoreDesc_Less_def not_less)
qed

lemma descending_nth:
  "descending ss \<Longrightarrow> i < j \<Longrightarrow> j < length ss \<Longrightarrow> ss ! j \<le> ss ! i"
  unfolding descending_def by (rule sorted_wrt_nth_less)

lemma candidateScore_rule:
  assumes "NewVectorModel rel documents conf reg = Returns (Inr vm)" and "distinct (map fst documents)"
  shows "candidateScore vm seenDocs (scoresForUserVec vm x) doc = score_rule documents seenDocs x doc"
proof (cases "docIndexes vm doc")
  case None
  then have "map_of documents doc = None"
    using NewVectorModel_index_None[OF assms(1), of doc] by (simp add: map_of_eq_None_iff)
  then show ?thesis by (simp add: candidateScore_def score_rule_def None)
next
  case (Some i)
  have "i < length (itemFactorsY vm)"
    by (rule NewVectorModel_index_range[OF assms(1) Some])
  then have "scoresForUserVec vm x ! i = dot (itemFactorsY vm ! i) x"
    by (simp add: scoresForUserVec_def MulVec_def)
  then show ?thesis
    by (simp add: candidateScore_def score_rule_def Some NewVectorModel_factor_row[OF assms Some])
qed

lemma scoreCandidates_sorted:
  assumes "sort_contract lib" and "scoreCandidates lib vm candidates seenDocs = Inr cs"
  shows "mset (map DocumentID cs) = mset candidates"
    and "descending (map Score cs)"
    and "length cs = length candidates"
proof -
  from scoreCandidates_Inr[OF assms(2)] obtain x
    where s: "cs = sort_Sort lib byDocScoreDesc_Less
               (map (\<lambda>doc. \<lparr>DocumentID = doc,
                              Score = candidateScore vm seenDocs (scoresForUserVec vm x) doc\<rparr>)
                  candidates)"
    by blast
  have "mset (map DocumentID cs)
      = image_mset DocumentID (mset (map (\<lambda>doc. \<lparr>DocumentID = doc,
                              Score = candidateScore vm seenDocs (scoresForUserVec vm x) doc\<rparr>)
                  candidates))"
    unfolding s by (simp only: mset_map sort_contract_mset[OF assms(1)])
  then show "mset (map DocumentID cs) = mset candidates"
    by (simp add: image_mset.compositionality comp_def)
  show "descending (map Score cs)"
    unfolding s by (rule sort_contract_descending[OF assms(1)])
  show "length cs = length candidates"
    by (simp add: s sort_contract_length[OF assms(1)])
qed

section \<open>The exact instance meets the requirements\<close>

lemma mset_insert_by: "mset (insert_by lt x ys) = add_mset x (mset ys)"
  by (induction ys) auto

lemma mset_insertion_sort: "mset (insertion_sort lt xs) = mset xs"
  by (induction xs) (auto simp: insertion_sort_def mset_insert_by)

lemma set_insert_by: "set (insert_by lt x ys) = insert x (set ys)"
  by (induction ys) auto

lemma sorted_insert_by:
  "sorted_wrt (\<lambda>a b. \<not> byDocScoreDesc_Less b a) ys \<Longrightarrow>
   sorted_wrt (\<lambda>a b. \<not> byDocScoreDesc_Less b a) (insert_by byDocScoreDesc_Less x ys)"
  by (induction ys) (auto simp: set_insert_by byDocScoreDesc_Less_def)

lemma sorted_insertion_sort:
  "sorted_wrt (\<lambda>a b. \<not> byDocScoreDesc_Less b a) (insertion_sort byDocScoreDesc_Less xs)"
  by (induction xs) (auto simp: insertion_sort_def sorted_insert_by)

lemma sort_contract_exact: "sort_contract exact_library"
  by (simp add: sort_contract_def exact_library_def mset_insertion_sort sorted_insertion_sort)

lemma dot_Cons [simp]: "dot (a # u) (b # v) = a * b + dot u v"
  by (simp add: dot_def)

lemma dot_Nil [simp]: "dot [] v = 0"
  by (simp add: dot_def)

lemma dot_eliminated:
  "length t = length r \<Longrightarrow> length r = length v \<Longrightarrow>
   dot (map2 (\<lambda>x y. x - m * y) t r) v = dot t v - m * dot r v"
  by (induction t r v rule: list_induct3) (auto simp: algebra_simps)

lemma eliminate_Some:
  "eliminate ((a # r) # rows) (b0 # bs) = Some x \<Longrightarrow>
   0 < a \<and> (\<exists>x'. eliminate (map (\<lambda>row. map2 (\<lambda>x y. x - hd row / a * y) (tl row) r) rows)
                  (map2 (\<lambda>row bi. bi - hd row / a * b0) rows bs) = Some x'
             \<and> x = (b0 - dot r x') / a # x')"
  by (simp split: if_splits option.splits)

lemma eliminate_sound:
  "square A \<Longrightarrow> length b = length A \<Longrightarrow> eliminate A b = Some x \<Longrightarrow>
   length x = length b \<and> MulVec A x = b"
proof (induction A b arbitrary: x rule: eliminate.induct)
  case (1 b)
  then show ?case by (simp add: MulVec_def)
next
  case (2 rows b)
  then show ?case by simp
next
  case (3 a r rows)
  then show ?case by simp
next
  case (4 a r rows b0 bs)
  let ?rows' = "map (\<lambda>row. map2 (\<lambda>x y. x - hd row / a * y) (tl row) r) rows"
  let ?bs' = "map2 (\<lambda>row bi. bi - hd row / a * b0) rows bs"
  from eliminate_Some[OF "4.prems"(3)] obtain x' where pos: "0 < a"
    and x': "eliminate ?rows' ?bs' = Some x'"
    and x: "x = (b0 - dot r x') / a # x'"
    by blast
  have na: "\<not> a \<le> 0" using pos by simp
  have lr: "length r = length rows"
    using "4.prems"(1) by (simp add: square_def)
  have lrow: "length row = Suc (length rows)" if "row \<in> set rows" for row
    using "4.prems"(1) that by (simp add: square_def)
  have lbs: "length bs = length rows"
    using "4.prems"(2) by simp
  have sq': "square ?rows'"
    unfolding square_def
  proof
    fix q assume "q \<in> set ?rows'"
    then obtain row where "row \<in> set rows" and q: "q = map2 (\<lambda>x y. x - hd row / a * y) (tl row) r"
      by auto
    with lrow[of row] lr show "length q = length ?rows'" by simp
  qed
  have len': "length ?bs' = length ?rows'"
    using lbs by simp
  have ih: "length x' = length ?bs' \<and> MulVec ?rows' x' = ?bs'"
    using na sq' len' x' by (rule "4.IH")
  then have lx': "length x' = length rows" and mv: "MulVec ?rows' x' = ?bs'"
    using lbs by simp_all
  have first: "dot (a # r) x = b0"
    using pos by (simp add: x)
  have others: "dot (rows ! k) x = bs ! k" if k: "k < length rows" for k
  proof -
    have mem: "rows ! k \<in> set rows" using k by simp
    from lrow[OF mem] obtain h t where row: "rows ! k = h # t"
      by (cases "rows ! k") simp_all
    have lt: "length t = length r"
      using lrow[OF mem] lr by (simp add: row)
    from mv have "MulVec ?rows' x' ! k = ?bs' ! k" by simp
    then have "dot (map2 (\<lambda>x y. x - h / a * y) t r) x' = bs ! k - h / a * b0"
      using k lbs by (simp add: MulVec_def row)
    then have e: "dot t x' - h / a * dot r x' = bs ! k - h / a * b0"
      using dot_eliminated[OF lt, of x' "h / a"] lr lx' by simp
    have "dot (rows ! k) x = h * ((b0 - dot r x') / a) + dot t x'"
      by (simp add: row x)
    also have "\<dots> = h / a * b0 - h / a * dot r x' + dot t x'"
      by (simp add: algebra_simps diff_divide_distrib)
    also have "\<dots> = bs ! k"
      using e by simp
    finally show ?thesis .
  qed
  have "MulVec ((a # r) # rows) x = b0 # bs"
  proof (rule nth_equalityI)
    show "length (MulVec ((a # r) # rows) x) = length (b0 # bs)"
      using lbs by (simp add: MulVec_def)
  next
    fix i assume "i < length (MulVec ((a # r) # rows) x)"
    then have i: "i < Suc (length rows)" by (simp add: MulVec_def)
    show "MulVec ((a # r) # rows) x ! i = (b0 # bs) ! i"
    proof (cases i)
      case 0
      then show ?thesis using first by (simp add: MulVec_def)
    next
      case (Suc k)
      then show ?thesis using others[of k] i by (simp add: MulVec_def)
    qed
  qed
  moreover have "length x = length (b0 # bs)"
    using lx' lbs by (simp add: x)
  ultimately show ?case by simp
qed

lemma from_upper_symmetric:
  assumes "square A" and "symmetric A"
  shows "from_upper A = A"
proof (rule nth_equalityI)
  show "length (from_upper A) = length A"
    by (simp add: from_upper_def)
next
  fix i assume "i < length (from_upper A)"
  then have i: "i < length A" by (simp add: from_upper_def)
  have li: "length (A ! i) = length A"
    using assms(1) i by (simp add: square_def)
  have "map (\<lambda>j. A ! min i j ! max i j) [0..<length A] = A ! i"
  proof (rule nth_equalityI)
    show "length (map (\<lambda>j. A ! min i j ! max i j) [0..<length A]) = length (A ! i)"
      by (simp add: li)
  next
    fix j assume "j < length (map (\<lambda>j. A ! min i j ! max i j) [0..<length A])"
    then have j: "j < length A" by simp
    show "map (\<lambda>j. A ! min i j ! max i j) [0..<length A] ! j = A ! i ! j"
    proof (cases "i \<le> j")
      case True
      then show ?thesis using j by (simp add: min_def max_def)
    next
      case False
      then have "min i j = j" "max i j = i" by simp_all
      moreover have "A ! j ! i = A ! i ! j"
        using assms(2) i j by (simp add: symmetric_def)
      ultimately show ?thesis using j by simp
    qed
  qed
  then show "from_upper A ! i = A ! i"
    using i by (simp add: from_upper_def)
qed

lemma cholesky_contract_exact: "cholesky_contract exact_library"
  unfolding cholesky_contract_def
proof (intro allI impI)
  fix A :: dense and ch :: dense and b x :: vec
  assume a: "square A \<and> symmetric A \<and> length b = length A \<and>
        Factorize exact_library A = Some ch \<and> SolveVec exact_library ch b = Some x"
  then have "from_upper A = A"
    by (simp add: from_upper_symmetric)
  with a have "ch = A"
    by (simp add: exact_library_def split: option.splits)
  with a have "eliminate A b = Some x"
    by (simp add: exact_library_def)
  with a show "length x = length b \<and> MulVec A x = b"
    using eliminate_sound by blast
qed

section \<open>The fixtures, evaluated\<close>

lemma fixture_ok: "NewVectorModel Rejects_zero_length fixture_documents 40 (1 / 100) = Returns (Inr fixture)"
  by (simp add: fixture_def NewVectorModel_eq uniform_def degenerate_def first_length_def
      fixture_documents_def)

lemma small_ok: "NewVectorModel Rejects_zero_length small_documents 40 5 = Returns (Inr small)"
  by (simp add: small_def NewVectorModel_eq uniform_def degenerate_def first_length_def
      small_documents_def)

lemma singular_ok: "NewVectorModel Rejects_zero_length singular_documents 1 (- 1) = Returns (Inr singular)"
  by (simp add: singular_def NewVectorModel_eq uniform_def degenerate_def first_length_def
      singular_documents_def)

lemma fixture_docIDs: "docIDs fixture = [1234, 4567]"
  using NewVectorModel_fields(2)[OF fixture_ok] by (simp add: fixture_documents_def)

lemma small_docIDs: "docIDs small = [1, 2]"
  using NewVectorModel_fields(2)[OF small_ok] by (simp add: small_documents_def)

lemma small_distinct: "distinct (map fst small_documents)"
  by (simp add: small_documents_def)


lemma fixture_scores:
  "scoreCandidates exact_library fixture [1234, 4567] [(1234, True)]
     = Inr [\<lparr>DocumentID = 4567, Score = 40000 / 38457401\<rparr>, \<lparr>DocumentID = 1234, Score = - 1\<rparr>]"
  by code_simp

text \<open>
  The package's test \<^verbatim>\<open>TestRecommend\<close> expects item 4567 first with a score within
  \<open>10\<^sup>-\<^sup>5\<close> of \<open>0.00104011\<close>, then the seen item 1234: the model agrees.
\<close>

lemma fixture_score_as_tested: "\<bar>40000 / 38457401 - 104011 / 100000000\<bar> < (1 / 100000 :: real)"
  by simp

lemma small_scores:
  "scoreCandidates exact_library small [1, 2] [(1, True)]
     = Inr [\<lparr>DocumentID = 1, Score = - 1\<rparr>, \<lparr>DocumentID = 2, Score = - (80 / 49)\<rparr>]"
  by code_simp

lemma small_userVector:
  "userVector exact_library small (confidenceMap small [(1, True)]) = Inr [40 / 49]"
  by code_simp

lemma small_rank_scores:
  "scoreCandidates exact_library small [2, 9, 1, 9] [(1, True)]
     = Inr [\<lparr>DocumentID = 9, Score = 0\<rparr>, \<lparr>DocumentID = 9, Score = 0\<rparr>,
            \<lparr>DocumentID = 1, Score = - 1\<rparr>, \<lparr>DocumentID = 2, Score = - (80 / 49)\<rparr>]"
  by code_simp

lemma small_Rank:
  "Rank exact_library small [2, 9, 1, 9] [(1, True)] = (Inr [0, 0, - 1, - (80 / 49)], [9, 9, 1, 2], small)"
  using Rank_Inr[OF small_rank_scores] by simp

lemma small_Recommend:
  "Recommend exact_library small [(1, True)] n =
     (if n < 0 then (Panics, small)
      else (Returns (Inr (take (nat n) [\<lparr>DocumentID = 1, Score = - 1\<rparr>,
                                         \<lparr>DocumentID = 2, Score = - (80 / 49)\<rparr>])), small))"
  using Recommend_Inr[of exact_library small "[(1, True)]", unfolded small_docIDs, OF small_scores]
  by simp

lemma fixture_request:
  "confidenceMap fixture [(1234, True), (666, True)] = [(1234, 40)]"
  "user_matrix fixture [(1234, True), (666, True)]
     = [ [4901 / 100, 86, 123], [86, 16401 / 100, 242], [123, 242, 36101 / 100] ]"
  "user_rhs fixture [(1234, True), (666, True)] = [40, 80, 120]"
  "userVector exact_library fixture (confidenceMap fixture [(1234, True), (666, True)])
     = Inr [- (6396000 / 38457401), 3208000 / 38457401, 12812000 / 38457401]"
  by code_simp+

lemma singular_request:
  "Factorize exact_library (user_matrix singular [(1, True)]) = None"
  by code_simp


section \<open>Properties of the construction\<close>

text \<open>
  C9, as stated, fails with a gonum release that rejects a zero dimension: on the empty
  mapping the loop body never runs, no error is returned, and \<^verbatim>\<open>mat.NewDense(0, 0, data)\<close>
  panics.
\<close>

theorem NewVectorModel_empty_counterexample:
  "NewVectorModel Rejects_zero_length [] 40 (1 / 100) = Panics"
  by (simp add: NewVectorModel_eq uniform_def degenerate_def)

text \<open>
  C9, amended.  Construction from an empty mapping never returns an error.  It reaches
  \<^verbatim>\<open>mat.NewDense(0, 0, data)\<close>: with a gonum release that accepts a zero dimension it
  returns the model with no items and zero factors, and with a release that rejects it
  the construction panics there.
\<close>

theorem NewVectorModel_empty:
  "NewVectorModel rel [] conf reg =
     (case rel of
        Accepts_zero_length \<Rightarrow>
          Returns (Inr \<lparr>confidence = conf, regularization = reg, docIDs = [],
                        docIndexes = Map.empty, nFactors = 0, itemFactorsY = [],
                        squaredItemFactorsYtY = []\<rparr>)
      | Rejects_zero_length \<Rightarrow> Panics)"
  by (cases rel)
     (simp_all add: NewVectorModel_eq uniform_def degenerate_def first_length_def Mul_def T_def)

theorem NewVectorModel_empty_witness:
  "NewVectorModel Accepts_zero_length [] 40 (1 / 100) =
     Returns (Inr \<lparr>confidence = 40, regularization = 1 / 100, docIDs = [],
                   docIndexes = Map.empty, nFactors = 0, itemFactorsY = [],
                   squaredItemFactorsYtY = []\<rparr>)"
  using NewVectorModel_empty[of Accepts_zero_length 40 "1 / 100"] by simp

text \<open>
  C6, as stated, fails with a gonum release that rejects a zero dimension: vectors that
  all have length zero, and the empty mapping, pass the comparison of lengths, and then
  \<^verbatim>\<open>mat.NewDense\<close> panics instead of a model being returned.
\<close>

theorem NewVectorModel_uniform_counterexample:
  "NewVectorModel Rejects_zero_length [(1, []), (2, [])] 40 (1 / 100) = Panics
   \<and> NewVectorModel Rejects_zero_length [] 40 (1 / 100) = Panics"
  by (simp add: NewVectorModel_eq uniform_def degenerate_def first_length_def)

text \<open>
  C6, amended.  With every gonum release, construction fails with \<open>InvalidDimension\<close>
  exactly when two vectors of the mapping differ in length.  When all vectors have the
  same length it returns a model whose \<open>nFactors\<close> is that length, and no error,
  provided the mapping is not empty and the length is not zero, or the release accepts a
  zero dimension; on the empty mapping and on vectors of length zero, a release that
  rejects a zero dimension makes the construction panic.
\<close>

theorem NewVectorModel_InvalidDimension_iff:
  "(NewVectorModel rel documents conf reg = Returns (Inl InvalidDimension) \<longleftrightarrow>
      (\<exists>u \<in> snd ` set documents. \<exists>v \<in> snd ` set documents. length u \<noteq> length v))
   \<and> ((\<forall>u \<in> snd ` set documents. \<forall>v \<in> snd ` set documents. length u = length v)
        \<and> (rel = Accepts_zero_length
             \<or> documents \<noteq> [] \<and> (\<forall>v \<in> snd ` set documents. length v \<noteq> 0)) \<longrightarrow>
        (\<exists>vm. NewVectorModel rel documents conf reg = Returns (Inr vm)
              \<and> (\<forall>v \<in> snd ` set documents. nFactors vm = length v)))
   \<and> ((\<forall>u \<in> snd ` set documents. \<forall>v \<in> snd ` set documents. length u = length v)
        \<and> rel = Rejects_zero_length
        \<and> (documents = [] \<or> (\<exists>v \<in> snd ` set documents. length v = 0)) \<longrightarrow>
        NewVectorModel rel documents conf reg = Panics)"
proof (cases "uniform documents")
  case True
  then have all: "\<forall>u \<in> snd ` set documents. \<forall>v \<in> snd ` set documents. length u = length v"
    using uniform_iff[of documents] by blast
  have deg: "degenerate documents
      \<longleftrightarrow> documents = [] \<or> (\<exists>v \<in> snd ` set documents. length v = 0)"
  proof (cases documents)
    case Nil
    then show ?thesis by (simp add: degenerate_def)
  next
    case (Cons p rest)
    obtain d w where p: "p = (d, w)" by (cases p)
    have w: "w \<in> snd ` set documents" by (simp add: Cons p)
    have fl: "first_length documents = length w" by (simp add: Cons p first_length_def)
    from True have "\<forall>v \<in> snd ` set documents. length v = length w"
      by (simp add: uniform_def fl)
    with w show ?thesis
      unfolding degenerate_def fl by (auto simp: Cons)
  qed
  have notinv: "NewVectorModel rel documents conf reg \<noteq> Returns (Inl InvalidDimension)"
    using True by (simp add: NewVectorModel_eq)
  have ok: "\<exists>vm. NewVectorModel rel documents conf reg = Returns (Inr vm)
          \<and> (\<forall>v \<in> snd ` set documents. nFactors vm = length v)"
    if "rel = Accepts_zero_length \<or> \<not> degenerate documents"
    using True that by (auto simp: NewVectorModel_eq uniform_def)
  have pan: "NewVectorModel rel documents conf reg = Panics"
    if "rel = Rejects_zero_length" and "degenerate documents"
    using True that by (simp add: NewVectorModel_eq)
  from all notinv ok pan show ?thesis
    unfolding deg by blast
next
  case False
  then have "\<not> (\<forall>u \<in> snd ` set documents. \<forall>v \<in> snd ` set documents. length u = length v)"
    using uniform_iff[of documents] by blast
  moreover have "NewVectorModel rel documents conf reg = Returns (Inl InvalidDimension)"
    using False by (simp add: NewVectorModel_eq)
  ultimately show ?thesis by blast
qed

theorem NewVectorModel_InvalidDimension_iff_witness:
  "NewVectorModel Rejects_zero_length [(1234, [1, 2, 3]), (1235, [1, 2, 3, 5])] 1 (1 / 100)
     = Returns (Inl InvalidDimension)
   \<and> (\<exists>vm. NewVectorModel Rejects_zero_length [(1234, [1, 2, 3]), (4567, [3, 2, 1])] 40 (1 / 100)
              = Returns (Inr vm)
            \<and> nFactors vm = 3)
   \<and> (\<exists>vm. NewVectorModel Accepts_zero_length [(1, []), (2, [])] 40 (1 / 100) = Returns (Inr vm)
            \<and> nFactors vm = 0)
   \<and> NewVectorModel Rejects_zero_length [(1, []), (2, [])] 40 (1 / 100) = Panics"
  using NewVectorModel_InvalidDimension_iff[of Rejects_zero_length
      "[(1234, [1, 2, 3]), (1235, [1, 2, 3, 5])]" 1 "1 / 100"]
    NewVectorModel_InvalidDimension_iff[of Rejects_zero_length
      "[(1234, [1, 2, 3]), (4567, [3, 2, 1])]" 40 "1 / 100"]
    NewVectorModel_InvalidDimension_iff[of Accepts_zero_length "[(1, []), (2, [])]" 40 "1 / 100"]
    NewVectorModel_InvalidDimension_iff[of Rejects_zero_length "[(1, []), (2, [])]" 40 "1 / 100"]
  by (auto simp: numeral_3_eq_3)

text \<open>
  C7.  After construction the stored Gram matrix is square of dimension \<open>nFactors\<close>, the
  common length of the vectors, and its entry \<open>(i, j)\<close> is the sum over the rows of
  \<open>Y\<close> of the products of the entries \<open>i\<close> and \<open>j\<close>, that is \<open>Y\<^sup>tY\<close>; \<open>Rank\<close> and
  \<open>Recommend\<close> leave every field of the model as it was.
\<close>

theorem Gram_matrix_invariant:
  assumes "NewVectorModel rel documents conf reg = Returns (Inr vm)"
  shows "itemFactorsY vm = map snd documents
    \<and> (\<forall>v \<in> snd ` set documents. length v = nFactors vm)
    \<and> length (squaredItemFactorsYtY vm) = nFactors vm
    \<and> (\<forall>row \<in> set (squaredItemFactorsYtY vm). length row = nFactors vm)
    \<and> (\<forall>i < nFactors vm. \<forall>j < nFactors vm.
          squaredItemFactorsYtY vm ! i ! j
            = (\<Sum>k\<leftarrow>[0..<length (itemFactorsY vm)]. itemFactorsY vm ! k ! i * itemFactorsY vm ! k ! j))
    \<and> snd (snd (Rank lib vm candidates seenDocs)) = vm
    \<and> snd (Recommend lib vm seenDocs n) = vm"
proof -
  note f = NewVectorModel_fields[OF assms]
  have e: "itemFactorsY vm = [] \<Longrightarrow> nFactors vm = 0"
    by (simp add: f first_length_def)
  have g: "squaredItemFactorsYtY vm
      = mat_of (nFactors vm) (\<lambda>i j. \<Sum>k\<leftarrow>[0..<length (itemFactorsY vm)].
            itemFactorsY vm ! k ! i * itemFactorsY vm ! k ! j)"
    unfolding f(6) using NewVectorModel_rows[OF assms] e by (rule Gram_mat_of)
  have 1: "\<forall>v \<in> snd ` set documents. length v = nFactors vm"
    using f(8) by (simp add: uniform_def f(3))
  have 2: "length (squaredItemFactorsYtY vm) = nFactors vm"
    by (subst g) (simp add: mat_of_def)
  have 3: "\<forall>row \<in> set (squaredItemFactorsYtY vm). length row = nFactors vm"
    by (subst g) (auto simp: mat_of_def)
  have 4: "\<forall>i < nFactors vm. \<forall>j < nFactors vm.
          squaredItemFactorsYtY vm ! i ! j
            = (\<Sum>k\<leftarrow>[0..<length (itemFactorsY vm)]. itemFactorsY vm ! k ! i * itemFactorsY vm ! k ! j)"
    by (subst g) (simp add: mat_of_def)
  have 5: "snd (snd (Rank lib vm candidates seenDocs)) = vm"
    by (simp add: Rank_def split: sum.splits prod.splits)
  have 6: "snd (Recommend lib vm seenDocs n) = vm"
    by (simp add: Recommend_def split: sum.splits)
  show ?thesis
    by (intro conjI) (rule f(1) 1 2 3 4 5 6)+
qed

theorem Gram_matrix_invariant_witness:
  "NewVectorModel Rejects_zero_length fixture_documents 40 (1 / 100) = Returns (Inr fixture)
   \<and> length (squaredItemFactorsYtY fixture) = 3
   \<and> squaredItemFactorsYtY fixture ! 0 ! 1 = 1 * 2 + 3 * 2
   \<and> snd (snd (Rank exact_library fixture [0, 4567, 1234] [(1234, True)])) = fixture
   \<and> snd (Recommend exact_library fixture [(1234, True)] 1) = fixture"
proof -
  have n: "nFactors fixture = 3" and y: "itemFactorsY fixture = [ [1, 2, 3], [3, 2, 1] ]"
    using NewVectorModel_fields(1,3)[OF fixture_ok]
    by (simp_all add: fixture_documents_def first_length_def)
  have u: "[0..<2] = [0, Suc 0]" by (simp add: upt_rec)
  show ?thesis
    using Gram_matrix_invariant[OF fixture_ok, of exact_library "[0, 4567, 1234]" "[(1234, True)]" 1]
    by (simp add: fixture_ok n y u)
qed

section \<open>Properties of the user vector\<close>

text \<open>
  C1.  For a constructed model and a consumed-item set \<open>seenDocs\<close>, the confidence map
  holds the seen items that are in the index, each with the confidence of the model, and
  the user vector is computed from the system \<open>A x = b\<close> with \<open>A = Y\<^sup>tY + regularization \<cdot> I\<close> plus
  \<open>(confidence - 1) \<cdot> (f outer f)\<close> for the factor row \<open>f\<close> of each seen item that is in
  the index, and \<open>b\<close> the sum of \<open>confidence \<cdot> f\<close> over these items, with the
  confidence and the regularization given at construction.  \<open>A\<close> is square and
  symmetric; a returned vector solves the system, for a Cholesky solver that solves the
  symmetric systems it has factorized; and when the factorization cannot proceed the
  result is the error \<open>SingularSystem\<close>.  The same holds of \<open>userVector\<close> on any
  confidence map, with the confidences of the map.
\<close>

theorem userVector_solves_system:
  assumes "NewVectorModel rel documents conf reg = Returns (Inr vm)" and "cholesky_contract lib"
  shows "confidence vm = conf \<and> regularization vm = reg
    \<and> map fst (confidenceMap vm seenDocs)
          = filter (\<lambda>d. docIndexes vm d \<noteq> None) (map fst seenDocs)
    \<and> (\<forall>c \<in> snd ` set (confidenceMap vm seenDocs). c = conf)
    \<and> square (user_matrix vm seenDocs) \<and> symmetric (user_matrix vm seenDocs)
    \<and> userVector lib vm (confidenceMap vm seenDocs) =
           (case Factorize lib (user_matrix vm seenDocs) of
              None \<Rightarrow> Inl SingularSystem
            | Some ch \<Rightarrow>
                (case SolveVec lib ch (user_rhs vm seenDocs) of
                   None \<Rightarrow> Inl SolveError
                 | Some x \<Rightarrow> Inr x))
    \<and> (\<forall>x. userVector lib vm (confidenceMap vm seenDocs) = Inr x \<longrightarrow>
           length x = nFactors vm \<and> MulVec (user_matrix vm seenDocs) x = user_rhs vm seenDocs)
    \<and> (Factorize lib (user_matrix vm seenDocs) = None \<longrightarrow>
           userVector lib vm (confidenceMap vm seenDocs) = Inl SingularSystem)
    \<and> userVector lib vm cm =
           (case Factorize lib (system_matrix vm cm) of
              None \<Rightarrow> Inl SingularSystem
            | Some ch \<Rightarrow>
                (case SolveVec lib ch (system_rhs vm cm) of
                   None \<Rightarrow> Inl SolveError
                 | Some x \<Rightarrow> Inr x))
    \<and> (\<forall>x. userVector lib vm cm = Inr x \<longrightarrow>
           length x = nFactors vm \<and> MulVec (system_matrix vm cm) x = system_rhs vm cm)"
proof -
  have solves: "length x = nFactors vm \<and> MulVec (system_matrix vm c) x = system_rhs vm c"
    if "userVector lib vm c = Inr x" for c x
  proof -
    from that obtain ch where ch: "Factorize lib (system_matrix vm c) = Some ch"
      and x: "SolveVec lib ch (system_rhs vm c) = Some x"
      unfolding userVector_system[OF assms(1)] by (auto split: option.splits)
    from assms(2) system_shape(1,2)[of vm c] system_symmetric[of vm c] ch x
    have "length x = length (system_rhs vm c) \<and> MulVec (system_matrix vm c) x = system_rhs vm c"
      unfolding cholesky_contract_def by blast
    then show ?thesis by (simp add: system_shape(3))
  qed
  note eq = userVector_system[OF assms(1), of lib]
  have 1: "confidence vm = conf" and 2: "regularization vm = reg"
    by (rule NewVectorModel_fields[OF assms(1)])+
  have k: "map fst (confidenceMap vm seenDocs)
          = filter (\<lambda>d. docIndexes vm d \<noteq> None) (map fst seenDocs)"
    by (rule confidenceMap_entries(1))
  have c: "\<forall>c \<in> snd ` set (confidenceMap vm seenDocs). c = conf"
    using confidenceMap_entries(2)[of vm seenDocs] by (simp only: 1)
  have 3: "square (user_matrix vm seenDocs)"
    using system_shape(1)[of vm "confidenceMap vm seenDocs"] by (simp only: system_of_request)
  have 4: "symmetric (user_matrix vm seenDocs)"
    using system_symmetric[of vm "confidenceMap vm seenDocs"] by (simp only: system_of_request)
  have 5: "userVector lib vm (confidenceMap vm seenDocs) =
           (case Factorize lib (user_matrix vm seenDocs) of
              None \<Rightarrow> Inl SingularSystem
            | Some ch \<Rightarrow>
                (case SolveVec lib ch (user_rhs vm seenDocs) of
                   None \<Rightarrow> Inl SolveError
                 | Some x \<Rightarrow> Inr x))"
    using eq[of "confidenceMap vm seenDocs"] by (simp only: system_of_request)
  have 6: "\<forall>x. userVector lib vm (confidenceMap vm seenDocs) = Inr x \<longrightarrow>
           length x = nFactors vm \<and> MulVec (user_matrix vm seenDocs) x = user_rhs vm seenDocs"
    using solves[of "confidenceMap vm seenDocs"] by (simp only: system_of_request) blast
  have 7: "Factorize lib (user_matrix vm seenDocs) = None \<longrightarrow>
           userVector lib vm (confidenceMap vm seenDocs) = Inl SingularSystem"
    by (simp add: 5)
  have 8: "userVector lib vm cm =
           (case Factorize lib (system_matrix vm cm) of
              None \<Rightarrow> Inl SingularSystem
            | Some ch \<Rightarrow>
                (case SolveVec lib ch (system_rhs vm cm) of
                   None \<Rightarrow> Inl SolveError
                 | Some x \<Rightarrow> Inr x))"
    by (rule eq)
  have 9: "\<forall>x. userVector lib vm cm = Inr x \<longrightarrow>
           length x = nFactors vm \<and> MulVec (system_matrix vm cm) x = system_rhs vm cm"
    using solves[of cm] by blast
  show ?thesis
    by (intro conjI) (rule 1 2 k c 3 4 5 6 7 8 9)+
qed

theorem userVector_solves_system_witness:
  "NewVectorModel Rejects_zero_length fixture_documents 40 (1 / 100) = Returns (Inr fixture)
   \<and> cholesky_contract exact_library
   \<and> confidence fixture = 40 \<and> regularization fixture = 1 / 100
   \<and> confidenceMap fixture [(1234, True), (666, True)] = [(1234, 40)]
   \<and> user_matrix fixture [(1234, True), (666, True)]
       = [ [4901 / 100, 86, 123], [86, 16401 / 100, 242], [123, 242, 36101 / 100] ]
   \<and> user_rhs fixture [(1234, True), (666, True)] = [40, 80, 120]
   \<and> userVector exact_library fixture (confidenceMap fixture [(1234, True), (666, True)])
       = Inr [- (6396000 / 38457401), 3208000 / 38457401, 12812000 / 38457401]
   \<and> MulVec [ [4901 / 100, 86, 123], [86, 16401 / 100, 242], [123, 242, 36101 / 100] ]
       [- (6396000 / 38457401), 3208000 / 38457401, 12812000 / 38457401] = [40, 80, 120]
   \<and> NewVectorModel Rejects_zero_length singular_documents 1 (- 1) = Returns (Inr singular)
   \<and> userVector exact_library singular (confidenceMap singular [(1, True)]) = Inl SingularSystem"
  using userVector_solves_system[OF fixture_ok cholesky_contract_exact,
      of "[(1234, True), (666, True)]" "[(1234, 40), (666, 1)]"]
    userVector_solves_system[OF singular_ok cholesky_contract_exact,
      of "[(1, True)]" "[(1, 1)]"]
    fixture_request singular_request
  by (simp add: fixture_ok singular_ok cholesky_contract_exact)

section \<open>Properties of scoring, Rank and Recommend\<close>

text \<open>
  C2.  When scoring succeeds there is a user vector \<open>x\<close>, the solution that
  \<open>userVector\<close> returned, and every score that \<open>Rank\<close> or \<open>Recommend\<close> returns follows
  the rule: \<open>- 1\<close> for a seen item, otherwise \<open>0\<close> for an item that is not in the
  model, otherwise the dot product of the item's factor vector with \<open>x\<close>.
\<close>

theorem scores_follow_rule:
  assumes "NewVectorModel rel documents conf reg = Returns (Inr vm)" and "distinct (map fst documents)"
    and "sort_contract lib"
  shows "(\<forall>scores. fst (Rank lib vm candidates seenDocs) = Inr scores \<longrightarrow>
            (\<exists>x. userVector lib vm (confidenceMap vm seenDocs) = Inr x
               \<and> length scores = length candidates
               \<and> (\<forall>i < length candidates.
                     scores ! i = score_rule documents seenDocs x
                                    (fst (snd (Rank lib vm candidates seenDocs)) ! i))))
    \<and> (\<forall>recs. fst (Recommend lib vm seenDocs n) = Returns (Inr recs) \<longrightarrow>
            (\<exists>x. userVector lib vm (confidenceMap vm seenDocs) = Inr x
               \<and> (\<forall>r \<in> set recs. Score r = score_rule documents seenDocs x (DocumentID r))))"
proof (intro conjI allI impI)
  fix scores assume a: "fst (Rank lib vm candidates seenDocs) = Inr scores"
  then obtain cs where cs: "scoreCandidates lib vm candidates seenDocs = Inr cs"
    by (cases "scoreCandidates lib vm candidates seenDocs") (simp_all add: Rank_def)
  from scoreCandidates_Inr[OF cs] obtain x
    where x: "userVector lib vm (confidenceMap vm seenDocs) = Inr x"
      and s: "cs = sort_Sort lib byDocScoreDesc_Less
               (map (\<lambda>doc. \<lparr>DocumentID = doc,
                              Score = candidateScore vm seenDocs (scoresForUserVec vm x) doc\<rparr>)
                  candidates)"
    by blast
  have len: "length cs = length candidates"
    by (simp add: s sort_contract_length[OF assms(3)])
  have rule: "Score r = score_rule documents seenDocs x (DocumentID r)" if "r \<in> set cs" for r
    using that unfolding s sort_contract_set[OF assms(3)]
    by (auto simp: candidateScore_rule[OF assms(1,2)])
  have r: "Rank lib vm candidates seenDocs = (Inr (map Score cs), map DocumentID cs, vm)"
    by (rule Rank_Inr[OF cs len])
  with a have sc: "scores = map Score cs" by simp
  have "\<forall>i < length candidates.
          scores ! i = score_rule documents seenDocs x (fst (snd (Rank lib vm candidates seenDocs)) ! i)"
    using len rule by (simp add: r sc)
  with x len sc
  show "\<exists>x. userVector lib vm (confidenceMap vm seenDocs) = Inr x
               \<and> length scores = length candidates
               \<and> (\<forall>i < length candidates.
                     scores ! i = score_rule documents seenDocs x
                                    (fst (snd (Rank lib vm candidates seenDocs)) ! i))"
    by auto
next
  fix recs assume a: "fst (Recommend lib vm seenDocs n) = Returns (Inr recs)"
  then obtain cs where cs: "scoreCandidates lib vm (docIDs vm) seenDocs = Inr cs"
    by (cases "scoreCandidates lib vm (docIDs vm) seenDocs") (simp_all add: Recommend_def)
  from scoreCandidates_Inr[OF cs] obtain x
    where x: "userVector lib vm (confidenceMap vm seenDocs) = Inr x"
      and s: "cs = sort_Sort lib byDocScoreDesc_Less
               (map (\<lambda>doc. \<lparr>DocumentID = doc,
                              Score = candidateScore vm seenDocs (scoresForUserVec vm x) doc\<rparr>)
                  (docIDs vm))"
    by blast
  have rule: "Score r = score_rule documents seenDocs x (DocumentID r)" if "r \<in> set cs" for r
    using that unfolding s sort_contract_set[OF assms(3)]
    by (auto simp: candidateScore_rule[OF assms(1,2)])
  from a have "set recs \<subseteq> set cs"
    by (auto simp: Recommend_Inr[OF cs] split: if_splits dest: in_set_takeD)
  with rule x
  show "\<exists>x. userVector lib vm (confidenceMap vm seenDocs) = Inr x
               \<and> (\<forall>r \<in> set recs. Score r = score_rule documents seenDocs x (DocumentID r))"
    by blast
qed

theorem scores_follow_rule_witness:
  "NewVectorModel Rejects_zero_length small_documents 40 5 = Returns (Inr small)
   \<and> distinct (map fst small_documents)
   \<and> sort_contract exact_library
   \<and> fst (Rank exact_library small [2, 9, 1, 9] [(1, True)]) = Inr [0, 0, - 1, - (80 / 49)]
   \<and> fst (snd (Rank exact_library small [2, 9, 1, 9] [(1, True)])) = [9, 9, 1, 2]
   \<and> fst (Recommend exact_library small [(1, True)] 2)
        = Returns (Inr [\<lparr>DocumentID = 1, Score = - 1\<rparr>, \<lparr>DocumentID = 2, Score = - (80 / 49)\<rparr>])
   \<and> userVector exact_library small (confidenceMap small [(1, True)]) = Inr [40 / 49]
   \<and> score_rule small_documents [(1, True)] [40 / 49] 9 = 0
   \<and> score_rule small_documents [(1, True)] [40 / 49] 1 = - 1
   \<and> score_rule small_documents [(1, True)] [40 / 49] 2 = - (80 / 49)"
proof -
  have r: "score_rule small_documents [(1, True)] [40 / 49] 9 = 0"
    "score_rule small_documents [(1, True)] [40 / 49] 1 = - 1"
    "score_rule small_documents [(1, True)] [40 / 49] 2 = - (80 / 49)"
    by (simp_all add: score_rule_def small_documents_def dot_def)
  from scores_follow_rule[OF small_ok small_distinct sort_contract_exact,
      of "[2, 9, 1, 9]" "[(1, True)]" 2]
  show ?thesis
    by (simp add: small_ok small_distinct sort_contract_exact small_Rank small_Recommend
        small_userVector r)
qed



text \<open>
  C4.  When scoring succeeds and \<open>n\<close> is not negative, \<open>Recommend\<close> scores every item
  of the model, in descending order of score, and returns the first \<open>min n k\<close> of the
  \<open>k\<close> pairs; all of them when \<open>n \<ge> k\<close>.
\<close>

theorem Recommend_top_n:
  assumes "NewVectorModel rel documents conf reg = Returns (Inr vm)" and "sort_contract lib"
    and "scoreCandidates lib vm (docIDs vm) seenDocs = Inr every" and "0 \<le> n"
  shows "fst (Recommend lib vm seenDocs n) = Returns (Inr (take (nat n) every))
    \<and> mset (map DocumentID every) = mset (map fst documents)
    \<and> descending (map Score every)
    \<and> length (take (nat n) every) = min (nat n) (length documents)
    \<and> (int (length documents) \<le> n \<longrightarrow> take (nat n) every = every)"
proof -
  note sorted = scoreCandidates_sorted[OF assms(2,3)]
  have ids: "docIDs vm = map fst documents"
    by (rule NewVectorModel_fields(2)[OF assms(1)])
  have 1: "fst (Recommend lib vm seenDocs n) = Returns (Inr (take (nat n) every))"
    using assms(4) by (simp add: Recommend_Inr[OF assms(3)])
  have 2: "mset (map DocumentID every) = mset (map fst documents)"
    using sorted(1) by (simp add: ids)
  have len: "length every = length documents"
    using sorted(3) by (simp add: ids)
  have 4: "length (take (nat n) every) = min (nat n) (length documents)"
    by (simp add: len min.commute)
  have 5: "int (length documents) \<le> n \<longrightarrow> take (nat n) every = every"
    by (simp add: len)
  from 1 2 sorted(2) 4 5 show ?thesis by (intro conjI)
qed

theorem Recommend_top_n_witness:
  "NewVectorModel Rejects_zero_length small_documents 40 5 = Returns (Inr small)
   \<and> sort_contract exact_library
   \<and> scoreCandidates exact_library small (docIDs small) [(1, True)]
       = Inr [\<lparr>DocumentID = 1, Score = - 1\<rparr>, \<lparr>DocumentID = 2, Score = - (80 / 49)\<rparr>]
   \<and> fst (Recommend exact_library small [(1, True)] 1)
       = Returns (Inr [\<lparr>DocumentID = 1, Score = - 1\<rparr>])
   \<and> fst (Recommend exact_library small [(1, True)] 7)
       = Returns (Inr [\<lparr>DocumentID = 1, Score = - 1\<rparr>, \<lparr>DocumentID = 2, Score = - (80 / 49)\<rparr>])
   \<and> descending [- 1, - (80 / 49)]"
proof -
  have h: "scoreCandidates exact_library small (docIDs small) [(1, True)]
     = Inr [\<lparr>DocumentID = 1, Score = - 1\<rparr>, \<lparr>DocumentID = 2, Score = - (80 / 49)\<rparr>]"
    by (simp add: small_docIDs small_scores)
  from Recommend_top_n[OF small_ok sort_contract_exact h, of 1]
    Recommend_top_n[OF small_ok sort_contract_exact h, of 7]
  show ?thesis
    by (simp add: small_ok sort_contract_exact h)
qed

text \<open>
  C5.  When scoring succeeds, \<open>Rank\<close> leaves in the caller's list a permutation of the
  candidates (duplicates, unknown and seen items included) in descending order of
  score, and the returned scores are parallel to it: the score at a position is the
  score of the candidate now at that position.
\<close>

theorem Rank_reorders:
  assumes "sort_contract lib"
    and "Rank lib vm candidates seenDocs = (Inr scores, reordered, vm')"
  shows "mset reordered = mset candidates
    \<and> length scores = length reordered
    \<and> descending scores
    \<and> (\<exists>x. userVector lib vm (confidenceMap vm seenDocs) = Inr x
          \<and> (\<forall>i < length reordered.
                scores ! i = candidateScore vm seenDocs (scoresForUserVec vm x) (reordered ! i)))"
proof -
  from assms(2) obtain cs where cs: "scoreCandidates lib vm candidates seenDocs = Inr cs"
    by (cases "scoreCandidates lib vm candidates seenDocs") (simp_all add: Rank_def)
  from scoreCandidates_Inr[OF cs] obtain x
    where x: "userVector lib vm (confidenceMap vm seenDocs) = Inr x"
      and s: "cs = sort_Sort lib byDocScoreDesc_Less
               (map (\<lambda>doc. \<lparr>DocumentID = doc,
                              Score = candidateScore vm seenDocs (scoresForUserVec vm x) doc\<rparr>)
                  candidates)"
    by blast
  have len: "length cs = length candidates"
    by (simp add: s sort_contract_length[OF assms(1)])
  from Rank_Inr[OF cs len] assms(2)
  have sc: "scores = map Score cs" and re: "reordered = map DocumentID cs"
    by simp_all
  have 1: "mset reordered = mset candidates"
    using scoreCandidates_sorted(1)[OF assms(1) cs] by (simp add: re)
  have 2: "length scores = length reordered"
    by (simp add: sc re)
  have 3: "descending scores"
    unfolding sc s by (rule sort_contract_descending[OF assms(1)])
  have rule: "Score r = candidateScore vm seenDocs (scoresForUserVec vm x) (DocumentID r)"
    if "r \<in> set cs" for r
    using that unfolding s sort_contract_set[OF assms(1)] by auto
  have 4: "\<forall>i < length reordered.
                scores ! i = candidateScore vm seenDocs (scoresForUserVec vm x) (reordered ! i)"
    using rule by (simp add: sc re)
  from 1 2 3 x 4 show ?thesis by blast
qed

theorem Rank_reorders_witness:
  "sort_contract exact_library
   \<and> Rank exact_library small [2, 9, 1, 9] [(1, True)]
        = (Inr [0, 0, - 1, - (80 / 49)], [9, 9, 1, 2], small)
   \<and> mset [9, 9, 1, 2] = mset [2, 9, 1, 9 :: int]
   \<and> descending [0, 0, - 1, - (80 / 49)]"
  using Rank_reorders[OF sort_contract_exact small_Rank]
  by (simp add: sort_contract_exact small_Rank)

text \<open>
  C8, as stated, fails.  In the model of the two items \<open>1 \<mapsto> [1]\<close> and \<open>2 \<mapsto> [- 2]\<close>
  with confidence \<open>40\<close> and regularization \<open>5\<close>, the single seen item \<open>1\<close> gets
  \<open>- 1\<close> and item \<open>2\<close> gets \<open>- 80 / 49\<close>: with \<open>n = 2\<close> the seen item comes first,
  not last, and with \<open>n = 1\<close> the model's item \<open>2\<close> is not returned.
\<close>

theorem seen_item_last_counterexample:
  "NewVectorModel Rejects_zero_length small_documents 40 5 = Returns (Inr small)
   \<and> fst (Recommend exact_library small [(1, True)] 2)
       = Returns (Inr [\<lparr>DocumentID = 1, Score = - 1\<rparr>, \<lparr>DocumentID = 2, Score = - (80 / 49)\<rparr>])
   \<and> fst (Recommend exact_library small [(1, True)] 1)
       = Returns (Inr [\<lparr>DocumentID = 1, Score = - 1\<rparr>])"
  by (simp add: small_ok small_Recommend)

text \<open>
  C8, amended.  For a call of \<open>Recommend\<close> with a single seen item that returns, with
  \<open>n\<close> at least the number of the model's items: the result holds every item of the
  model, the seen item has the score \<open>- 1\<close>, and every returned item whose score is
  above \<open>- 1\<close> comes before it.
\<close>

theorem Recommend_single_seen:
  assumes "NewVectorModel rel documents conf reg = Returns (Inr vm)" and "sort_contract lib"
    and "fst (Recommend lib vm [(seen, flag)] n) = Returns (Inr recs)"
    and "int (length documents) \<le> n"
  shows "mset (map DocumentID recs) = mset (map fst documents)
    \<and> (\<forall>r \<in> set recs. DocumentID r = seen \<longrightarrow> Score r = - 1)
    \<and> (\<forall>i < length recs. \<forall>j < length recs.
          DocumentID (recs ! i) = seen \<and> - 1 < Score (recs ! j) \<longrightarrow> j < i)"
proof -
  from assms(3) obtain cs where cs: "scoreCandidates lib vm (docIDs vm) [(seen, flag)] = Inr cs"
    by (cases "scoreCandidates lib vm (docIDs vm) [(seen, flag)]") (simp_all add: Recommend_def)
  note sorted = scoreCandidates_sorted[OF assms(2) cs]
  have ids: "docIDs vm = map fst documents"
    by (rule NewVectorModel_fields(2)[OF assms(1)])
  have recs: "recs = cs"
    using assms(3,4) sorted(3) by (simp add: Recommend_Inr[OF cs] ids split: if_splits)
  have 1: "mset (map DocumentID recs) = mset (map fst documents)"
    using sorted(1) by (simp add: recs ids)
  have d: "descending (map Score recs)"
    using sorted(2) by (simp add: recs)
  from scoreCandidates_Inr[OF cs] obtain x
    where s: "cs = sort_Sort lib byDocScoreDesc_Less
               (map (\<lambda>doc. \<lparr>DocumentID = doc,
                              Score = candidateScore vm [(seen, flag)] (scoresForUserVec vm x) doc\<rparr>)
                  (docIDs vm))"
    by blast
  have 2: "\<forall>r \<in> set recs. DocumentID r = seen \<longrightarrow> Score r = - 1"
    unfolding recs s sort_contract_set[OF assms(2)]
    by (auto simp: candidateScore_def)
  have 3: "\<forall>i < length recs. \<forall>j < length recs.
          DocumentID (recs ! i) = seen \<and> - 1 < Score (recs ! j) \<longrightarrow> j < i"
  proof (intro allI impI)
    fix i j assume i: "i < length recs" and j: "j < length recs"
      and a: "DocumentID (recs ! i) = seen \<and> - 1 < Score (recs ! j)"
    from 2 i a have si: "Score (recs ! i) = - 1" by simp
    show "j < i"
    proof (rule ccontr)
      assume "\<not> j < i"
      then consider "i = j" | "i < j" by linarith
      then show False
      proof cases
        case 1
        with si a show False by simp
      next
        case 2
        from descending_nth[OF d 2] j have "Score (recs ! j) \<le> Score (recs ! i)"
          using i by simp
        with si a show False by simp
      qed
    qed
  qed
  from 1 2 3 show ?thesis by (intro conjI)
qed

theorem Recommend_single_seen_witness:
  "NewVectorModel Rejects_zero_length fixture_documents 40 (1 / 100) = Returns (Inr fixture)
   \<and> sort_contract exact_library
   \<and> fst (Recommend exact_library fixture [(1234, True)] 10)
       = Returns (Inr [\<lparr>DocumentID = 4567, Score = 40000 / 38457401\<rparr>,
                       \<lparr>DocumentID = 1234, Score = - 1\<rparr>])
   \<and> mset [4567, 1234] = mset (map fst fixture_documents)"
proof -
  have r: "fst (Recommend exact_library fixture [(1234, True)] 10)
       = Returns (Inr [\<lparr>DocumentID = 4567, Score = 40000 / 38457401\<rparr>,
                       \<lparr>DocumentID = 1234, Score = - 1\<rparr>])"
    using Recommend_Inr[of exact_library fixture "[(1234, True)]", unfolded fixture_docIDs,
        OF fixture_scores, of 10]
    by simp
  have n: "int (length fixture_documents) \<le> 10"
    by (simp add: fixture_documents_def)
  from Recommend_single_seen[OF fixture_ok sort_contract_exact r n]
  show ?thesis
    by (simp add: fixture_ok sort_contract_exact r)
qed

text \<open>
  C10.  When scoring succeeds, \<open>Recommend\<close> panics exactly for a negative \<open>n\<close>: the
  slice expression is reached, and it is safe only for \<open>n \<ge> 0\<close>.
\<close>

theorem Recommend_negative_n_panics:
  assumes "scoreCandidates lib vm (docIDs vm) seenDocs = Inr rs"
  shows "fst (Recommend lib vm seenDocs n) = Panics \<longleftrightarrow> n < 0"
  by (simp add: Recommend_Inr[OF assms])

theorem Recommend_negative_n_panics_witness:
  "scoreCandidates exact_library small (docIDs small) [(1, True)]
     = Inr [\<lparr>DocumentID = 1, Score = - 1\<rparr>, \<lparr>DocumentID = 2, Score = - (80 / 49)\<rparr>]
   \<and> fst (Recommend exact_library small [(1, True)] (- 1)) = Panics
   \<and> fst (Recommend exact_library small [(1, True)] 0) \<noteq> Panics"
proof -
  have h: "scoreCandidates exact_library small (docIDs small) [(1, True)]
     = Inr [\<lparr>DocumentID = 1, Score = - 1\<rparr>, \<lparr>DocumentID = 2, Score = - (80 / 49)\<rparr>]"
    by (simp add: small_docIDs small_scores)
  from Recommend_negative_n_panics[OF h, of "- 1"] Recommend_negative_n_panics[OF h, of 0] h
  show ?thesis by simp
qed

end
